theory Spec2Isabelle
  imports Complex_Main "HOL-Library.Option_ord"
begin

section \<open>Errors\<close>

text \<open>
  Every exception the two modules can raise is a value.  Python raises \<open>ValueError\<close> for
  all the \<open>ValueError_\<close> ones; they are kept apart so that a theorem can say which site raised.
\<close>

datatype error =
    ValueError_not_in_list string   \<comment> \<open>\<open>list.index(x)\<close>: x not in list\<close>
  | ValueError_divisible            \<comment> \<open>"... must be divisible by ..."\<close>
  | ValueError_velocity int         \<comment> \<open>"velocity must be between 0 and 127"\<close>
  | ValueError_bin int              \<comment> \<open>"bin * step must be between 0 and 127"\<close>
  | ValueError_note int             \<comment> \<open>"note must be between 0 and 127"\<close>
  | ValueError_instrument int       \<comment> \<open>"instrument must be between 0 and 15"\<close>
  | ValueError_arguments            \<comment> \<open>"Input one of ..., not both or neither"\<close>
  | ValueError_int string           \<comment> \<open>\<open>int(s)\<close>: invalid literal\<close>
  | ValueError_int_type             \<comment> \<open>"All indices in index_list must be int type"\<close>
  | IndexError int                  \<comment> \<open>list index out of range\<close>
  | ZeroDivisionError
  | TypeError                       \<comment> \<open>an operation on \<open>None\<close>\<close>

section \<open>multitrack\_vocabulary.py: manifest constants\<close>

definition note_on_events :: int where "note_on_events = 128"
definition note_off_events :: int where "note_off_events = note_on_events"
definition time_shift_events :: int where "time_shift_events = 125"
definition velocity_events :: int where "velocity_events = 32"
definition max_instruments :: int where "max_instruments = 16"
definition instrument_events :: int where "instrument_events = 128"
definition LTH :: int where "LTH = 1000"
definition DIV :: int where "DIV = LTH div time_shift_events"
definition BIN_STEP :: int where "BIN_STEP = 128 div velocity_events"

section \<open>Quantizer\<close>

text \<open>
  \<open>velocity_to_bin(velocity, step=BIN_STEP)\<close>.  \<open>128 % step\<close> raises
  \<open>ZeroDivisionError\<close> when \<open>step\<close> is 0; Python's \<open>//\<close> and \<open>%\<close> on
  integers floor, as \<open>div\<close> and \<open>mod\<close> on \<open>int\<close> do.
\<close>

definition velocity_to_bin :: "int \<Rightarrow> int \<Rightarrow> error + int" where
  "velocity_to_bin velocity step =
     (if step = 0 then Inl ZeroDivisionError
      else if 128 mod step \<noteq> 0 then Inl ValueError_divisible
      else if \<not> (0 \<le> velocity \<and> velocity \<le> 127) then Inl (ValueError_velocity velocity)
      else Inr (velocity div step))"

text \<open>\<open>bin_to_velocity(_bin, step=BIN_STEP)\<close>.\<close>

definition bin_to_velocity :: "int \<Rightarrow> int \<Rightarrow> error + int" where
  "bin_to_velocity bin step =
     (if \<not> (0 \<le> bin * step \<and> bin * step \<le> 127) then Inl (ValueError_bin (bin * step))
      else Inr (bin * step))"

text \<open>
  \<open>round_(a)\<close> (here \<open>round_custom\<close>: a name cannot end in an underscore) is
  called on the float \<open>x / div\<close> for integers \<open>x\<close> and \<open>div\<close>.
  The model computes on the rationals: \<open>a // 1\<close> is the floor, \<open>a % 1\<close> the
  fractional part.  With the default \<open>div = 8\<close> every quotient \<open>x / 8\<close> is a
  binary fraction, so the float is the rational exactly.
\<close>

definition round_custom :: "rat \<Rightarrow> int" where
  "round_custom a =
     (let b = \<lfloor>a\<rfloor>;
          decimal_digits = a - of_int b;
          adder = (if decimal_digits \<ge> 1 / 2 then 1 else 0)
      in b + adder)"

text \<open>
  \<open>time_cutter(time, lth=LTH, div=DIV)\<close>.  \<open>range(time // lth)\<close> is empty for a
  negative count, as \<open>replicate (nat n)\<close> is.
\<close>

definition time_cutter :: "int \<Rightarrow> int \<Rightarrow> int \<Rightarrow> error + int list" where
  "time_cutter time lth dv =
     (if dv = 0 then Inl ZeroDivisionError
      else if lth mod dv \<noteq> 0 then Inl ValueError_divisible
      else if lth = 0 then Inl ZeroDivisionError
      else
        let time_shifts = replicate (nat (time div lth)) (round_custom (of_int lth / of_int dv));
            leftover_time_shift = round_custom (of_int (time mod lth) / of_int dv)
        in Inr (if leftover_time_shift > 0 then time_shifts @ [leftover_time_shift]
                else time_shifts))"

section \<open>Strings and lists as Python has them\<close>

text \<open>
  An f-string \<open>f"{i}"\<close> of an integer is its decimal numeral, with a minus sign when
  negative; of \<open>None\<close> it is the word \<open>None\<close>.
\<close>

definition digit_char :: "nat \<Rightarrow> char" where
  "digit_char d = char_of (48 + d)"

fun str_nat :: "nat \<Rightarrow> string" where
  "str_nat n = (if n < 10 then [digit_char n] else str_nat (n div 10) @ [digit_char (n mod 10)])"

declare str_nat.simps [simp del]

definition str :: "int \<Rightarrow> string" where
  "str i = (if i < 0 then CHR ''-'' # str_nat (nat (- i)) else str_nat (nat i))"

definition fstr :: "int option \<Rightarrow> string" where
  "fstr v = (case v of None \<Rightarrow> ''None'' | Some i \<Rightarrow> str i)"

text \<open>
  \<open>int(s)\<close> on a string: an optional sign and decimal digits.  Python also strips
  surrounding whitespace and accepts non-ASCII digits; the model raises on those.  The
  vocabulary holds no such string, and every theorem below is about vocabulary tokens.
\<close>

definition is_digit :: "char \<Rightarrow> bool" where
  "is_digit c = (48 \<le> (of_char c :: nat) \<and> (of_char c :: nat) \<le> 57)"

definition digit_val :: "char \<Rightarrow> nat" where
  "digit_val c = of_char c - 48"

definition nat_of_digits :: "string \<Rightarrow> nat" where
  "nat_of_digits ds = foldl (\<lambda>a c. 10 * a + digit_val c) 0 ds"

definition int_str :: "string \<Rightarrow> error + int" where
  "int_str s =
     (let ds = (if s \<noteq> [] \<and> (hd s = CHR ''-'' \<or> hd s = CHR ''+'') then tl s else s)
      in if ds = [] \<or> \<not> list_all is_digit ds then Inl (ValueError_int s)
         else if hd s = CHR ''-'' then Inr (- int (nat_of_digits ds))
         else Inr (int (nat_of_digits ds)))"

text \<open>\<open>s.split(sep)\<close> for a one-character separator, and \<open>s.startswith(p)\<close>.\<close>

fun str_split :: "char \<Rightarrow> string \<Rightarrow> string list" where
  "str_split sep [] = [[]]"
| "str_split sep (c # cs) =
     (if c = sep then [] # str_split sep cs
      else (case str_split sep cs of [] \<Rightarrow> [[c]] | w # ws \<Rightarrow> (c # w) # ws))"

definition startswith :: "string \<Rightarrow> string \<Rightarrow> bool" where
  "startswith s p = (take (length p) s = p)"

text \<open>\<open>range(n)\<close> is the list \<open>0, ..., n - 1\<close>, empty when \<open>n \<le> 0\<close>.\<close>

definition py_range :: "int \<Rightarrow> int list" where
  "py_range n = [0..n - 1]"

text \<open>\<open>xs.index(x)\<close>: the position of the first occurrence, or \<open>ValueError\<close>.\<close>

fun index_opt :: "'a list \<Rightarrow> 'a \<Rightarrow> nat option" where
  "index_opt [] x = None"
| "index_opt (y # ys) x = (if y = x then Some 0 else map_option Suc (index_opt ys x))"

definition index :: "string list \<Rightarrow> string \<Rightarrow> error + int" where
  "index xs x =
     (case index_opt xs x of None \<Rightarrow> Inl (ValueError_not_in_list x) | Some i \<Rightarrow> Inr (int i))"

text \<open>
  \<open>xs[i]\<close>: an index in \<open>[-len(xs), 0)\<close> counts from the end; anything outside
  \<open>[-len(xs), len(xs))\<close> raises \<open>IndexError\<close>.
\<close>

definition getitem :: "'a list \<Rightarrow> int \<Rightarrow> error + 'a" where
  "getitem xs i =
     (if 0 \<le> i \<and> i < int (length xs) then Inr (xs ! nat i)
      else if - int (length xs) \<le> i \<and> i < 0 then Inr (xs ! nat (int (length xs) + i))
      else Inl (IndexError i))"

text \<open>A list comprehension whose body can raise stops at the first exception.\<close>

fun map_err :: "('a \<Rightarrow> error + 'b) \<Rightarrow> 'a list \<Rightarrow> error + 'b list" where
  "map_err f [] = Inr []"
| "map_err f (x # xs) =
     (case f x of Inl e \<Rightarrow> Inl e
      | Inr y \<Rightarrow> (case map_err f xs of Inl e \<Rightarrow> Inl e | Inr ys \<Rightarrow> Inr (y # ys)))"

section \<open>multitrack\_vocabulary.py: the vocabulary\<close>

definition note_on_vocab :: "string list" where
  "note_on_vocab =
     concat (map (\<lambda>inst. map (\<lambda>i. ''note_on_'' @ str i @ ''_'' @ str inst)
                              (py_range note_on_events))
                 (py_range max_instruments))"

definition note_off_vocab :: "string list" where
  "note_off_vocab =
     concat (map (\<lambda>inst. map (\<lambda>i. ''note_off_'' @ str i @ ''_'' @ str inst)
                              (py_range note_off_events))
                 (py_range max_instruments))"

definition time_shift_vocab :: "string list" where
  "time_shift_vocab = map (\<lambda>i. ''time_shift_'' @ str i) (py_range time_shift_events)"

definition velocity_vocab :: "string list" where
  "velocity_vocab = map (\<lambda>i. ''set_velocity_'' @ str i) (py_range velocity_events)"

definition instrument_vocab :: "string list" where
  "instrument_vocab = map (\<lambda>i. ''set_instrument_'' @ str i) (py_range instrument_events)"

definition vocab :: "string list" where
  "vocab = [''<pad>''] @ note_on_vocab @ note_off_vocab @ time_shift_vocab @ velocity_vocab
           @ instrument_vocab @ [''<start>'', ''<end>'']"

definition vocab_size :: int where
  "vocab_size = int (length vocab)"

definition pad_token :: "error + int" where "pad_token = index vocab ''<pad>''"
definition start_token :: "error + int" where "start_token = index vocab ''<start>''"
definition end_token :: "error + int" where "end_token = index vocab ''<end>''"

text \<open>\<open>events_to_indices\<close> and \<open>indices_to_events\<close>, with the default \<open>_vocab\<close>.\<close>

definition events_to_indices :: "string list \<Rightarrow> error + int list" where
  "events_to_indices event_list = map_err (index vocab) event_list"

definition indices_to_events :: "int list \<Rightarrow> error + string list" where
  "indices_to_events index_list = map_err (getitem vocab) index_list"

text \<open>
  \<open>time_to_events(delta_time, event_list, index_list)\<close> with both lists given, as
  \<open>midi_parser\<close> calls it: the loop appends to both lists and the model returns them.
\<close>

definition base_idx :: int where
  "base_idx = int (length note_on_vocab) + int (length note_off_vocab)"

fun time_to_events_loop ::
  "int list \<Rightarrow> string list \<Rightarrow> int list \<Rightarrow> error + (string list \<times> int list)" where
  "time_to_events_loop [] event_list index_list = Inr (event_list, index_list)"
| "time_to_events_loop (i # tm) event_list index_list =
     (let idx = base_idx + i
      in case getitem vocab idx of
           Inl e \<Rightarrow> Inl e
         | Inr ev \<Rightarrow> time_to_events_loop tm (event_list @ [ev]) (index_list @ [idx]))"

definition time_to_events ::
  "int \<Rightarrow> string list \<Rightarrow> int list \<Rightarrow> error + (string list \<times> int list)" where
  "time_to_events delta_time event_list index_list =
     (case time_cutter delta_time LTH DIV of
        Inl e \<Rightarrow> Inl e
      | Inr tm \<Rightarrow> time_to_events_loop tm event_list index_list)"

text \<open>\<open>get_note_event_indices(note, instrument, is_on)\<close>.\<close>

definition get_note_event_indices :: "int \<Rightarrow> int \<Rightarrow> bool \<Rightarrow> error + int" where
  "get_note_event_indices nt inst is_on =
     (if \<not> (0 \<le> nt \<and> nt \<le> 127) then Inl (ValueError_note nt)
      else if \<not> (0 \<le> inst \<and> inst < max_instruments) then Inl (ValueError_instrument inst)
      else
        let base = (if \<not> is_on then 1 + int (length note_on_vocab) else 1)
        in Inr (base + inst * note_on_events + nt))"

section \<open>multitrack\_tokenizer.py: the data\<close>

text \<open>The dataclass \<open>MidiEvent\<close>: every field but \<open>type\<close> is optional.\<close>

record MidiEvent =
  type :: string
  "note" :: "int option"
  velocity :: "int option"
  instrument :: "int option"
  time :: "int option"
  program :: "int option"

text \<open>
  The messages of the MIDI library, by type, with the attributes the tokenizer reads
  or writes.  The library checks the ranges of data bytes when a message is built; that
  check is not part of the model.
\<close>

datatype message =
    Msg_note_on int int int int       \<comment> \<open>channel, note, velocity, time\<close>
  | Msg_note_off int int int int      \<comment> \<open>channel, note, velocity, time\<close>
  | Msg_program_change int int int    \<comment> \<open>channel, program, time\<close>
  | Msg_other int                     \<comment> \<open>any other message that is not meta: time\<close>
  | Meta_set_tempo int int            \<comment> \<open>tempo, time\<close>
  | Meta_track_name string int        \<comment> \<open>name, time\<close>
  | Meta_other int                    \<comment> \<open>any other meta message: time\<close>

fun msg_time :: "message \<Rightarrow> int" where
  "msg_time (Msg_note_on c n v t) = t"
| "msg_time (Msg_note_off c n v t) = t"
| "msg_time (Msg_program_change c p t) = t"
| "msg_time (Msg_other t) = t"
| "msg_time (Meta_set_tempo tp t) = t"
| "msg_time (Meta_track_name nm t) = t"
| "msg_time (Meta_other t) = t"

text \<open>A loop whose body can raise stops at the first exception.\<close>

fun foldl_err :: "('s \<Rightarrow> 'a \<Rightarrow> error + 's) \<Rightarrow> 's \<Rightarrow> 'a list \<Rightarrow> error + 's" where
  "foldl_err f s [] = Inr s"
| "foldl_err f s (x # xs) = (case f s x of Inl e \<Rightarrow> Inl e | Inr s' \<Rightarrow> foldl_err f s' xs)"

section \<open>midi\_parser\<close>

text \<open>
  The first pass.  Its state is the four variables the loop over the tracks updates;
  all four are set once, before the outer loop.
\<close>

record collect =
  current_time :: int
  tempo :: int
  channel_programs :: "int \<rightharpoonup> int"
  absolute_events :: "MidiEvent list"

definition note_event :: "string \<Rightarrow> int \<Rightarrow> int \<Rightarrow> int \<Rightarrow> collect \<Rightarrow> MidiEvent" where
  "note_event msg_type ch n v s =
     \<lparr>type = msg_type, note = Some n, velocity = Some v,
      instrument = Some (case channel_programs s ch of None \<Rightarrow> 0 | Some p \<Rightarrow> p),
      time = Some (current_time s), program = None\<rparr>"

definition collect_msg :: "collect \<Rightarrow> message \<Rightarrow> collect" where
  "collect_msg s0 msg =
     (let s = s0\<lparr>current_time := current_time s0 + msg_time msg\<rparr>
      in case msg of
           Meta_set_tempo tp t \<Rightarrow> (if tempo s = 0 then s\<lparr>tempo := tp\<rparr> else s)
         | Meta_track_name nm t \<Rightarrow> s
         | Meta_other t \<Rightarrow> s
         | Msg_note_on ch n v t \<Rightarrow>
             s\<lparr>absolute_events := absolute_events s
                  @ [note_event (if v = 0 then ''note_off'' else ''note_on'') ch n v s]\<rparr>
         | Msg_note_off ch n v t \<Rightarrow>
             s\<lparr>absolute_events := absolute_events s @ [note_event ''note_off'' ch n v s]\<rparr>
         | Msg_program_change ch p t \<Rightarrow>
             s\<lparr>channel_programs := (channel_programs s)(ch \<mapsto> p),
               absolute_events := absolute_events s
                  @ [\<lparr>type = ''set_instrument'', note = None, velocity = None,
                      instrument = Some ch, time = Some (current_time s),
                      program = Some p\<rparr>]\<rparr>
         | Msg_other t \<Rightarrow> s)"

definition collect_init :: collect where
  "collect_init = \<lparr>current_time = 0, tempo = 0, channel_programs = Map.empty,
                   absolute_events = []\<rparr>"

definition first_pass :: "message list list \<Rightarrow> collect" where
  "first_pass mid = foldl (\<lambda>s track. foldl collect_msg s track) collect_init mid"

text \<open>
  The second pass.  Its state is the two output lists and \<open>last_time\<close>.
  \<open>list.sort(key=...)\<close> is stable, as \<open>sort_key\<close> is.
\<close>

record emit =
  event_list :: "string list"
  index_list :: "int list"
  last_time :: int

definition emit_token :: "emit \<Rightarrow> string \<Rightarrow> error + emit" where
  "emit_token s event_str =
     (case index vocab event_str of
        Inl e \<Rightarrow> Inl e
      | Inr i \<Rightarrow> Inr (s\<lparr>event_list := event_list s @ [event_str],
                         index_list := index_list s @ [i]\<rparr>))"

definition emit_time :: "emit \<Rightarrow> MidiEvent \<Rightarrow> error + emit" where
  "emit_time s event =
     (case time event of
        None \<Rightarrow> Inl TypeError
      | Some t \<Rightarrow>
          if t > last_time s then
            (case time_to_events (t - last_time s) (event_list s) (index_list s) of
               Inl e \<Rightarrow> Inl e
             | Inr (el, il) \<Rightarrow> Inr \<lparr>event_list = el, index_list = il, last_time = t\<rparr>)
          else Inr s)"

definition emit_velocity :: "emit \<Rightarrow> MidiEvent \<Rightarrow> error + emit" where
  "emit_velocity s event =
     (if type event = ''note_on'' then
        (case velocity event of
           None \<Rightarrow> Inl TypeError
         | Some v \<Rightarrow>
             (case velocity_to_bin v BIN_STEP of
                Inl e \<Rightarrow> Inl e
              | Inr vel_bin \<Rightarrow> emit_token s (''set_velocity_'' @ str vel_bin)))
      else Inr s)"

definition emit_event :: "emit \<Rightarrow> MidiEvent \<Rightarrow> error + emit" where
  "emit_event s0 event =
     (case emit_time s0 event of
        Inl e \<Rightarrow> Inl e
      | Inr s \<Rightarrow>
          if type event = ''set_instrument'' then
            emit_token s (''set_instrument_'' @ fstr (program event))
          else if type event = ''note_on'' \<or> type event = ''note_off'' then
            (case emit_velocity s event of
               Inl e \<Rightarrow> Inl e
             | Inr s' \<Rightarrow>
                 emit_token s' (type event @ ''_'' @ fstr (note event) @ ''_''
                                @ fstr (instrument event)))
          else Inr s)"

definition encode_events :: "MidiEvent list \<Rightarrow> error + emit" where
  "encode_events evs =
     (case start_token of
        Inl e \<Rightarrow> Inl e
      | Inr st \<Rightarrow>
          (case foldl_err emit_event
                  \<lparr>event_list = [''<start>''], index_list = [st], last_time = 0\<rparr> evs of
             Inl e \<Rightarrow> Inl e
           | Inr s \<Rightarrow>
               (case end_token of
                  Inl e \<Rightarrow> Inl e
                | Inr en \<Rightarrow> Inr (s\<lparr>event_list := event_list s @ [''<end>''],
                                    index_list := index_list s @ [en]\<rparr>))))"

text \<open>
  \<open>midi_parser(mid=mid)\<close>, with the file already loaded, returns the index list, the
  event list and the tempo.
\<close>

definition midi_parser :: "message list list \<Rightarrow> error + (int list \<times> string list \<times> int)" where
  "midi_parser mid =
     (let c = first_pass mid
      in case encode_events (sort_key time (absolute_events c)) of
           Inl e \<Rightarrow> Inl e
         | Inr s \<Rightarrow> Inr (index_list s, event_list s, tempo c))"

section \<open>list\_parser\<close>

text \<open>
  The state of the decoding loop.  \<open>instrument_tracks\<close> is a dictionary whose values
  are the very track objects appended to \<open>mid.tracks\<close>, in the same order; the
  association list \<open>tracks\<close> is both, and appending to a track updates its entry.
\<close>

record decode =
  tracks :: "(int \<times> message list) list"
  current_instrument :: int
  current_velocity :: int
  delta_time :: int

definition new_track :: "int \<Rightarrow> int \<Rightarrow> decode \<Rightarrow> decode" where
  "new_track key prog s =
     (if key \<notin> fst ` set (tracks s)
      then s\<lparr>tracks := tracks s @ [(key, [Msg_program_change (key mod 16) prog 0])]\<rparr>
      else s)"

definition track_append :: "int \<Rightarrow> message \<Rightarrow> decode \<Rightarrow> decode" where
  "track_append key msg s =
     s\<lparr>tracks := map (\<lambda>(k, t). if k = key then (k, t @ [msg]) else (k, t)) (tracks s)\<rparr>"

definition decode_note :: "decode \<Rightarrow> string \<Rightarrow> error + decode" where
  "decode_note s event =
     (let parts = str_split CHR ''_'' event
      in case getitem parts 0 of Inl e \<Rightarrow> Inl e | Inr p0 \<Rightarrow>
         case getitem parts 1 of Inl e \<Rightarrow> Inl e | Inr p1 \<Rightarrow>
         case getitem parts 2 of Inl e \<Rightarrow> Inl e | Inr p2 \<Rightarrow>
         case int_str p2 of Inl e \<Rightarrow> Inl e | Inr n \<Rightarrow>
         case getitem parts 3 of Inl e \<Rightarrow> Inl e | Inr p3 \<Rightarrow>
         case int_str p3 of Inl e \<Rightarrow> Inl e | Inr inst \<Rightarrow>
           let note_type = p0 @ ''_'' @ p1;
               s1 = new_track inst 0 s;
               msg = (if note_type = ''note_on''
                      then Msg_note_on (inst mod 16) n (current_velocity s1) (delta_time s1)
                      else Msg_note_off (inst mod 16) n 0 (delta_time s1))
           in Inr ((track_append inst msg s1)\<lparr>delta_time := 0\<rparr>))"

definition decode_event :: "decode \<Rightarrow> string \<Rightarrow> error + decode" where
  "decode_event s event =
     (if event = ''<pad>'' \<or> event = ''<start>'' \<or> event = ''<end>'' then Inr s
      else if startswith event ''time_shift_'' then
        (case int_str (last (str_split CHR ''_'' event)) of
           Inl e \<Rightarrow> Inl e
         | Inr time_value \<Rightarrow> Inr (s\<lparr>delta_time := delta_time s + time_value * DIV\<rparr>))
      else if startswith event ''set_velocity_'' then
        (case int_str (last (str_split CHR ''_'' event)) of
           Inl e \<Rightarrow> Inl e
         | Inr vel_bin \<Rightarrow>
             (case bin_to_velocity vel_bin BIN_STEP of
                Inl e \<Rightarrow> Inl e
              | Inr v \<Rightarrow> Inr (s\<lparr>current_velocity := v\<rparr>)))
      else if startswith event ''set_instrument_'' then
        (case int_str (last (str_split CHR ''_'' event)) of
           Inl e \<Rightarrow> Inl e
         | Inr prog \<Rightarrow> Inr (new_track prog prog (s\<lparr>current_instrument := prog\<rparr>)))
      else if startswith event ''note_on_'' \<or> startswith event ''note_off_'' then
        decode_note s event
      else Inr s)"

definition decode_init :: decode where
  "decode_init = \<lparr>tracks = [], current_instrument = 0, current_velocity = 64, delta_time = 0\<rparr>"

definition decode_events :: "string list \<Rightarrow> error + decode" where
  "decode_events evs = foldl_err decode_event decode_init evs"

text \<open>
  \<open>list_parser(index_list, event_list, fname, tempo)\<close>: exactly one of the two lists
  is given.  The elements of \<open>index_list\<close> are integers by their type, so the
  \<open>isinstance\<close> test passes.  The result is \<open>mid.tracks\<close>: the metadata track, then
  the instrument tracks in the order of their creation.
\<close>

definition list_parser ::
  "int list option \<Rightarrow> string list option \<Rightarrow> string \<Rightarrow> int \<Rightarrow> error + message list list" where
  "list_parser idxs evs fname tp =
     (if \<not> ((idxs = None) \<noteq> (evs = None)) then Inl ValueError_arguments
      else
        case (case idxs of Some il \<Rightarrow> indices_to_events il
                         | None \<Rightarrow> Inr (case evs of Some el \<Rightarrow> el | None \<Rightarrow> [])) of
          Inl e \<Rightarrow> Inl e
        | Inr el \<Rightarrow>
            (case decode_events el of
               Inl e \<Rightarrow> Inl e
             | Inr s \<Rightarrow> Inr ([Meta_track_name fname 0, Meta_set_tempo tp 0]
                              # map snd (tracks s))))"

text \<open>
  The elements of \<open>index_list\<close> can be any Python object, and \<open>list_parser\<close> tests
  them (\<open>isinstance(i, int)\<close>, through \<open>i.item()\<close> for the elements of a tensor)
  after the test of its arguments and before it looks anything up, raising
  \<open>ValueError\<close> unless all of them are integers.  An \<open>element\<close> is an integer (a
  \<open>bool\<close> is the integer it stands for) or any other object; \<open>list_parser_untyped\<close>
  is \<open>list_parser\<close> called with such elements, and \<open>list_parser\<close> above is what is
  left once they are known to be integers.
\<close>

datatype element = Int_elem int | Other_elem

fun ints_of :: "element list \<Rightarrow> int list option" where
  "ints_of [] = Some []"
| "ints_of (Int_elem i # xs) = map_option ((#) i) (ints_of xs)"
| "ints_of (Other_elem # xs) = None"

definition list_parser_untyped ::
  "element list option \<Rightarrow> string list option \<Rightarrow> string \<Rightarrow> int \<Rightarrow> error + message list list" where
  "list_parser_untyped idxs evs fname tp =
     (if \<not> ((idxs = None) \<noteq> (evs = None)) then Inl ValueError_arguments
      else case idxs of
             None \<Rightarrow> list_parser None evs fname tp
           | Some xs \<Rightarrow>
               (case ints_of xs of
                  None \<Rightarrow> Inl ValueError_int_type
                | Some il \<Rightarrow> list_parser (Some il) evs fname tp))"

section \<open>Notions used in the statements\<close>

text \<open>
  The ranges the MIDI library guarantees for the data bytes of the messages it hands to
  \<open>midi_parser\<close>.
\<close>

fun valid_msg :: "message \<Rightarrow> bool" where
  "valid_msg (Msg_note_on c n v t) = (0 \<le> c \<and> c \<le> 15 \<and> 0 \<le> n \<and> n \<le> 127 \<and> 0 \<le> v \<and> v \<le> 127)"
| "valid_msg (Msg_note_off c n v t) = (0 \<le> c \<and> c \<le> 15 \<and> 0 \<le> n \<and> n \<le> 127 \<and> 0 \<le> v \<and> v \<le> 127)"
| "valid_msg (Msg_program_change c p t) = (0 \<le> c \<and> c \<le> 15 \<and> 0 \<le> p \<and> p \<le> 127)"
| "valid_msg (Msg_other t) = True"
| "valid_msg (Meta_set_tempo tp t) = True"
| "valid_msg (Meta_track_name nm t) = True"
| "valid_msg (Meta_other t) = True"

text \<open>
  A semantic event as the first pass builds it from such messages, at a time that is not
  negative, and, for a note, with an instrument that has a slot in the vocabulary.
\<close>

definition semantic_event :: "MidiEvent \<Rightarrow> bool" where
  "semantic_event ev =
     ((case time ev of None \<Rightarrow> False | Some t \<Rightarrow> 0 \<le> t)
      \<and> (if type ev = ''set_instrument''
         then (case program ev of None \<Rightarrow> False | Some p \<Rightarrow> 0 \<le> p \<and> p \<le> 127)
         else (type ev = ''note_on'' \<or> type ev = ''note_off'')
              \<and> (case note ev of None \<Rightarrow> False | Some n \<Rightarrow> 0 \<le> n \<and> n \<le> 127)
              \<and> (case velocity ev of None \<Rightarrow> False | Some v \<Rightarrow> 0 \<le> v \<and> v \<le> 127)
              \<and> (case instrument ev of None \<Rightarrow> False
                  | Some j \<Rightarrow> 0 \<le> j \<and> j < max_instruments)))"

text \<open>
  What a round trip is to preserve of a note: its kind, instrument and note number, and
  for a note-on its velocity bin.  \<open>msg_note\<close> reads it off a decoded message (the
  instrument is the channel), \<open>event_note\<close> off a semantic event.
\<close>

datatype note_info =
    Note_on_info int int int     \<comment> \<open>instrument, note, velocity bin\<close>
  | Note_off_info int int        \<comment> \<open>instrument, note\<close>

fun msg_note :: "message \<Rightarrow> note_info option" where
  "msg_note (Msg_note_on c n v t) =
     (case velocity_to_bin v BIN_STEP of Inl e \<Rightarrow> None | Inr b \<Rightarrow> Some (Note_on_info c n b))"
| "msg_note (Msg_note_off c n v t) = Some (Note_off_info c n)"
| "msg_note (Msg_program_change c p t) = None"
| "msg_note (Msg_other t) = None"
| "msg_note (Meta_set_tempo tp t) = None"
| "msg_note (Meta_track_name nm t) = None"
| "msg_note (Meta_other t) = None"

definition event_note :: "MidiEvent \<Rightarrow> note_info option" where
  "event_note ev =
     (case instrument ev of None \<Rightarrow> None | Some j \<Rightarrow>
      case note ev of None \<Rightarrow> None | Some n \<Rightarrow>
        if type ev = ''note_on'' then
          (case velocity ev of None \<Rightarrow> None | Some v \<Rightarrow>
           case velocity_to_bin v BIN_STEP of Inl e \<Rightarrow> None
           | Inr b \<Rightarrow> Some (Note_on_info j n b))
        else if type ev = ''note_off'' then Some (Note_off_info j n)
        else None)"

text \<open>The messages of the track kept under an instrument key.\<close>

definition track_of :: "int \<Rightarrow> (int \<times> message list) list \<Rightarrow> message list" where
  "track_of j trks = concat (map snd (filter (\<lambda>kt. fst kt = j) trks))"

text \<open>
  The time a decoding state stands for: the relative times of all messages written so
  far, and the pending delta.
\<close>

definition decoded_time :: "decode \<Rightarrow> int" where
  "decoded_time st =
     sum_list (map (\<lambda>kt. sum_list (map msg_time (snd kt))) (tracks st)) + delta_time st"

text \<open>
  An event as the first pass builds it from messages within those ranges: the instrument
  of a note is the program of its channel, any of 0 to 127.
\<close>

definition collected_event :: "MidiEvent \<Rightarrow> bool" where
  "collected_event ev =
     (time ev \<noteq> None
      \<and> (if type ev = ''set_instrument''
         then (case program ev of None \<Rightarrow> False | Some p \<Rightarrow> 0 \<le> p \<and> p \<le> 127)
         else (type ev = ''note_on'' \<or> type ev = ''note_off'')
              \<and> (case note ev of None \<Rightarrow> False | Some n \<Rightarrow> 0 \<le> n \<and> n \<le> 127)
              \<and> (case velocity ev of None \<Rightarrow> False | Some v \<Rightarrow> 0 \<le> v \<and> v \<le> 127)
              \<and> (case instrument ev of None \<Rightarrow> False | Some j \<Rightarrow> 0 \<le> j \<and> j \<le> 127)))"

section \<open>Facts about the constants\<close>

lemmas manifest_defs =
  note_on_events_def note_off_events_def time_shift_events_def velocity_events_def
  max_instruments_def instrument_events_def LTH_def DIV_def BIN_STEP_def

section \<open>Velocity binning\<close>

lemma BIN_STEP_value: "BIN_STEP = 4"
  by (simp add: manifest_defs)

text \<open>
  C8.  For every velocity \<open>v\<close> in \<open>[0, 127]\<close>, with the default step
  \<open>128 // velocity_events\<close>, neither \<open>velocity_to_bin\<close> nor \<open>bin_to_velocity\<close>
  raises, and \<open>bin_to_velocity(velocity_to_bin(v))\<close> differs from \<open>v\<close> by less than
  the step.
\<close>

theorem velocity_bin_roundtrip:
  assumes "0 \<le> v" and "v \<le> 127"
  shows "\<exists>b w. velocity_to_bin v BIN_STEP = Inr b
               \<and> bin_to_velocity b BIN_STEP = Inr w
               \<and> \<bar>w - v\<bar> < BIN_STEP"
proof -
  have b: "velocity_to_bin v BIN_STEP = Inr (v div 4)"
    using assms by (simp add: velocity_to_bin_def BIN_STEP_value)
  have r: "0 \<le> v div 4 * 4" "v div 4 * 4 \<le> 127" "\<bar>v div 4 * 4 - v\<bar> < 4"
    using assms by presburger+
  then have w: "bin_to_velocity (v div 4) BIN_STEP = Inr (v div 4 * 4)"
    by (simp add: bin_to_velocity_def BIN_STEP_value)
  show ?thesis
    using b w r(3) by (simp add: BIN_STEP_value)
qed

theorem velocity_bin_roundtrip_witness:
  "\<exists>b w. velocity_to_bin 100 BIN_STEP = Inr b
         \<and> bin_to_velocity b BIN_STEP = Inr w
         \<and> \<bar>w - 100\<bar> < BIN_STEP"
  using velocity_bin_roundtrip [of 100] by simp

section \<open>Decimal numerals\<close>

lemma of_char_digit_char: "d < 10 \<Longrightarrow> (of_char (digit_char d) :: nat) = 48 + d"
  by (simp add: digit_char_def of_char_of)

lemma is_digit_digit_char: "d < 10 \<Longrightarrow> is_digit (digit_char d)"
  by (simp add: is_digit_def of_char_digit_char)

lemma digit_val_digit_char: "d < 10 \<Longrightarrow> digit_val (digit_char d) = d"
  by (simp add: digit_val_def of_char_digit_char)

lemma is_digit_not_sep: "is_digit c \<Longrightarrow> c \<noteq> CHR ''_'' \<and> c \<noteq> CHR ''-'' \<and> c \<noteq> CHR ''+''"
  by (auto simp: is_digit_def)

lemma str_nat_digits: "list_all is_digit (str_nat n)"
proof (induction n rule: str_nat.induct)
  case (1 n)
  show ?case
  proof (cases "n < 10")
    case True
    then show ?thesis by (subst str_nat.simps) (simp add: is_digit_digit_char)
  next
    case False
    then show ?thesis using 1 by (subst str_nat.simps) (simp add: is_digit_digit_char)
  qed
qed

lemma str_nat_nonempty: "str_nat n \<noteq> []"
  by (subst str_nat.simps) simp

lemma nat_of_digits_snoc: "nat_of_digits (ds @ [c]) = 10 * nat_of_digits ds + digit_val c"
  by (simp add: nat_of_digits_def)

lemma nat_of_digits_str_nat: "nat_of_digits (str_nat n) = n"
proof (induction n rule: str_nat.induct)
  case (1 n)
  show ?case
  proof (cases "n < 10")
    case True
    then show ?thesis
      by (subst str_nat.simps) (simp add: nat_of_digits_def digit_val_digit_char)
  next
    case False
    then show ?thesis using 1
      by (subst str_nat.simps) (simp add: nat_of_digits_snoc digit_val_digit_char)
  qed
qed

lemma hd_str_nat_digit: "is_digit (hd (str_nat n))"
  using str_nat_digits [of n] str_nat_nonempty [of n]
  by (cases "str_nat n") simp_all

lemma int_str_str: "int_str (str i) = Inr i"
proof (cases "i < 0")
  case True
  then show ?thesis
    by (simp add: int_str_def str_def str_nat_nonempty str_nat_digits nat_of_digits_str_nat)
next
  case False
  have "hd (str_nat (nat i)) \<noteq> CHR ''-''" "hd (str_nat (nat i)) \<noteq> CHR ''+''"
    using is_digit_not_sep [OF hd_str_nat_digit] by blast+
  with False show ?thesis
    by (simp add: int_str_def str_def str_nat_nonempty str_nat_digits nat_of_digits_str_nat)
qed

lemma str_inject: "str i = str j \<Longrightarrow> i = j"
  by (metis int_str_str sum.inject(2))

lemma sep_notin_str: "CHR ''_'' \<notin> set (str i)"
proof -
  have "CHR ''_'' \<notin> set (str_nat n)" for n
    using str_nat_digits [of n] is_digit_not_sep by (auto simp: list_all_iff)
  then show ?thesis by (simp add: str_def)
qed

lemma str_split_no_sep: "sep \<notin> set w \<Longrightarrow> str_split sep w = [w]"
  by (induction w) auto

lemma str_split_nonempty: "str_split sep s \<noteq> []"
  by (induction s) (auto split: list.splits)

lemma str_split_append:
  "sep \<notin> set p \<Longrightarrow> str_split sep (p @ sep # w) = p # str_split sep w"
  by (induction p) auto

lemma digit_char_values:
  "digit_char 0 = CHR ''0''" "digit_char 1 = CHR ''1''" "digit_char 2 = CHR ''2''"
  "digit_char 3 = CHR ''3''" "digit_char 4 = CHR ''4''" "digit_char 5 = CHR ''5''"
  "digit_char 6 = CHR ''6''" "digit_char 7 = CHR ''7''" "digit_char 8 = CHR ''8''"
  "digit_char 9 = CHR ''9''" "digit_char (Suc 0) = CHR ''1''"
  by code_simp+

lemma str_values:
  "str 0 = ''0''" "str 60 = ''60''" "str 127 = ''127''" "str (-5) = ''-5''"
  by (simp_all add: str_def str_nat.simps digit_char_values)

section \<open>Rounding and the time cutter\<close>

lemma round_custom_div:
  assumes "0 < d"
  shows "round_custom (of_int r / of_int d) = r div d + (if d \<le> 2 * (r mod d) then 1 else 0)"
proof -
  have fl: "\<lfloor>(of_int r / of_int d :: rat)\<rfloor> = r div d"
    by (simp add: floor_divide_of_int_eq)
  have "(of_int r :: rat) = of_int (r div d) * of_int d + of_int (r mod d)"
    by (simp flip: of_int_mult of_int_add)
  then have fr: "(of_int r / of_int d :: rat) - of_int (r div d) = of_int (r mod d) / of_int d"
    using assms by (simp add: field_simps)
  have "((1::rat) / 2 \<le> of_int (r mod d) / of_int d)
        = ((of_int d :: rat) \<le> of_int (2 * (r mod d)))"
    using assms by (simp add: field_simps)
  then have cmp: "((1::rat) / 2 \<le> of_int (r mod d) / of_int d) = (d \<le> 2 * (r mod d))"
    by (simp only: of_int_le_iff)
  show ?thesis
    unfolding round_custom_def Let_def fl fr cmp by simp
qed

lemma half_up_8: "(r::int) div 8 + (if 8 \<le> 2 * (r mod 8) then 1 else 0) = (r + 4) div 8"
proof -
  define q m where "q = r div 8" and "m = r mod 8"
  have r: "r = 8 * q + m" and m: "0 \<le> m" "m < 8" by (simp_all add: q_def m_def)
  show ?thesis
  proof (cases "4 \<le> m")
    case True
    have "r + 4 = 8 * (q + 1) + (m - 4)" using r by simp
    then have "(r + 4) div 8 = q + 1"
      using True m by (intro int_div_pos_eq[where r = "m - 4"]) auto
    then show ?thesis using True by (simp flip: q_def m_def)
  next
    case False
    have "r + 4 = 8 * q + (m + 4)" using r by simp
    then have "(r + 4) div 8 = q"
      using False m by (intro int_div_pos_eq[where r = "m + 4"]) auto
    then show ?thesis using False by (simp flip: q_def m_def)
  qed
qed

lemma round_custom_8: "round_custom (of_int r / 8) = (r + 4) div 8"
proof -
  have "round_custom (of_int r / of_int 8) = r div 8 + (if 8 \<le> 2 * (r mod 8) then 1 else 0)"
    by (rule round_custom_div) simp
  then show ?thesis by (simp only: half_up_8) simp
qed

lemma half_up_8_error: "\<bar>(r::int) - 8 * ((r + 4) div 8)\<bar> \<le> 4"
proof -
  have "r + 4 = 8 * ((r + 4) div 8) + (r + 4) mod 8" by simp
  moreover have "0 \<le> (r + 4) mod 8" "(r + 4) mod 8 < 8" by simp_all
  ultimately show ?thesis by linarith
qed

lemma DIV_value: "DIV = 8"
  by (simp add: manifest_defs)

lemma LTH_value: "LTH = 1000"
  by (simp add: manifest_defs)

lemma time_cutter_default:
  "time_cutter d LTH DIV =
     Inr (replicate (nat (d div 1000)) 125
          @ (if 0 < (d mod 1000 + 4) div 8 then [(d mod 1000 + 4) div 8] else []))"
proof -
  have a: "round_custom (of_int 1000 / of_int 8) = 125"
    using round_custom_8 [of 1000] by simp
  have b: "round_custom (of_int (d mod 1000) / of_int 8) = (d mod 1000 + 4) div 8"
    using round_custom_8 [of "d mod 1000"] by simp
  show ?thesis
    unfolding time_cutter_def DIV_value LTH_value Let_def a b by simp
qed

section \<open>Lists, ranges and list search\<close>

lemma length_py_range: "length (py_range n) = nat n"
  by (simp add: py_range_def)

lemma nth_py_range: "k < nat n \<Longrightarrow> py_range n ! k = int k"
  by (simp add: py_range_def)

lemma set_py_range: "set (py_range n) = {0..<n}"
  by (auto simp: py_range_def)

lemma distinct_py_range: "distinct (py_range n)"
  by (simp add: py_range_def)

lemma length_concat_map:
  "length (concat (map (\<lambda>y. map (f y) xs) ys)) = length ys * length xs"
  by (induction ys) simp_all

lemma nth_concat_map:
  "i < length xs \<Longrightarrow> j < length ys \<Longrightarrow>
   concat (map (\<lambda>y. map (f y) xs) ys) ! (j * length xs + i) = f (ys ! j) (xs ! i)"
proof (induction ys arbitrary: j)
  case Nil
  then show ?case by simp
next
  case (Cons y ys)
  show ?case
  proof (cases j)
    case 0
    then show ?thesis using Cons.prems by (simp add: nth_append)
  next
    case (Suc j')
    then have "j' < length ys" using Cons.prems by simp
    from Cons.IH [OF Cons.prems(1) this] show ?thesis
      using Suc by (simp add: nth_append add.assoc)
  qed
qed

lemma set_concat_map:
  "set (concat (map (\<lambda>y. map (f y) xs) ys)) = {f y x | y x. y \<in> set ys \<and> x \<in> set xs}"
  by auto

lemma distinct_concat_map:
  assumes "distinct xs" "distinct ys"
    and inj: "\<And>y x y' x'. f y x = f y' x' \<Longrightarrow> y = y' \<and> x = x'"
  shows "distinct (concat (map (\<lambda>y. map (f y) xs) ys))"
proof -
  have eq: "concat (map (\<lambda>y. map (f y) xs) ys) = map (\<lambda>(y, x). f y x) (List.product ys xs)"
    by (induction ys) simp_all
  have "inj_on (\<lambda>(y, x). f y x) (set (List.product ys xs))"
    by (auto simp: inj_on_def dest: inj)
  then show ?thesis
    unfolding eq using assms(1,2) by (simp add: distinct_map distinct_product)
qed

lemma index_opt_None: "(index_opt xs x = None) = (x \<notin> set xs)"
  by (induction xs) auto

lemma index_opt_nth: "distinct xs \<Longrightarrow> k < length xs \<Longrightarrow> index_opt xs (xs ! k) = Some k"
proof (induction xs arbitrary: k)
  case Nil
  then show ?case by simp
next
  case (Cons y ys)
  then show ?case by (cases k) auto
qed

lemma index_opt_Some: "index_opt xs x = Some k \<Longrightarrow> k < length xs \<and> xs ! k = x"
proof (induction xs arbitrary: k)
  case Nil
  then show ?case by simp
next
  case (Cons y ys)
  then show ?case by (cases k) (auto split: if_splits)
qed

lemma sep_split_inject:
  assumes "a @ c # b = a' @ c # b'" and "c \<notin> set a" and "c \<notin> set a'"
  shows "a = a' \<and> b = b'"
  using assms
proof (induction a arbitrary: a')
  case Nil
  then show ?case by (cases a') auto
next
  case (Cons x a)
  then show ?case by (cases a') auto
qed

lemma note_str_inject:
  assumes "str i @ CHR ''_'' # str j = str i' @ CHR ''_'' # str j'"
  shows "i = i' \<and> j = j'"
proof -
  have "str i = str i' \<and> str j = str j'"
    using assms sep_notin_str by (intro sep_split_inject [where c = "CHR ''_''"]) simp_all
  then show ?thesis by (simp add: str_inject)
qed

section \<open>The layout of the vocabulary\<close>

lemma length_note_on_vocab: "length note_on_vocab = 2048"
  by (simp add: note_on_vocab_def length_concat_map length_py_range manifest_defs)

lemma length_note_off_vocab: "length note_off_vocab = 2048"
  by (simp add: note_off_vocab_def length_concat_map length_py_range manifest_defs)

lemma length_time_shift_vocab: "length time_shift_vocab = 125"
  by (simp add: time_shift_vocab_def length_py_range manifest_defs)

lemma length_velocity_vocab: "length velocity_vocab = 32"
  by (simp add: velocity_vocab_def length_py_range manifest_defs)

lemma length_instrument_vocab: "length instrument_vocab = 128"
  by (simp add: instrument_vocab_def length_py_range manifest_defs)

lemmas vocab_lengths =
  length_note_on_vocab length_note_off_vocab length_time_shift_vocab
  length_velocity_vocab length_instrument_vocab

lemma length_vocab: "length vocab = 4384"
  by (simp add: vocab_def vocab_lengths)

lemma vocab_size_value: "vocab_size = 4384"
  by (simp add: vocab_size_def length_vocab)

lemma base_idx_value: "base_idx = 4096"
  by (simp add: base_idx_def vocab_lengths)

lemma nth_note_on_vocab:
  assumes "i < 128" "j < 16"
  shows "note_on_vocab ! (j * 128 + i) = ''note_on_'' @ str (int i) @ ''_'' @ str (int j)"
proof -
  have "concat (map (\<lambda>inst. map (\<lambda>i. ''note_on_'' @ str i @ ''_'' @ str inst) (py_range 128))
          (py_range 16)) ! (j * length (py_range 128) + i)
        = ''note_on_'' @ str (py_range 128 ! i) @ ''_'' @ str (py_range 16 ! j)"
    using assms by (intro nth_concat_map) (simp_all add: length_py_range)
  then show ?thesis
    using assms by (simp add: note_on_vocab_def manifest_defs length_py_range nth_py_range)
qed

lemma nth_note_off_vocab:
  assumes "i < 128" "j < 16"
  shows "note_off_vocab ! (j * 128 + i) = ''note_off_'' @ str (int i) @ ''_'' @ str (int j)"
proof -
  have "concat (map (\<lambda>inst. map (\<lambda>i. ''note_off_'' @ str i @ ''_'' @ str inst) (py_range 128))
          (py_range 16)) ! (j * length (py_range 128) + i)
        = ''note_off_'' @ str (py_range 128 ! i) @ ''_'' @ str (py_range 16 ! j)"
    using assms by (intro nth_concat_map) (simp_all add: length_py_range)
  then show ?thesis
    using assms by (simp add: note_off_vocab_def manifest_defs length_py_range nth_py_range)
qed

lemma nth_time_shift_vocab: "k < 125 \<Longrightarrow> time_shift_vocab ! k = ''time_shift_'' @ str (int k)"
  by (simp add: time_shift_vocab_def manifest_defs length_py_range nth_py_range)

lemma nth_velocity_vocab: "k < 32 \<Longrightarrow> velocity_vocab ! k = ''set_velocity_'' @ str (int k)"
  by (simp add: velocity_vocab_def manifest_defs length_py_range nth_py_range)

lemma nth_instrument_vocab:
  "k < 128 \<Longrightarrow> instrument_vocab ! k = ''set_instrument_'' @ str (int k)"
  by (simp add: instrument_vocab_def manifest_defs length_py_range nth_py_range)

text \<open>What stands at each index.\<close>

lemma nth_block:
  assumes "v = pre @ blk @ post" and "length pre = off" and "k < length blk"
  shows "v ! (off + k) = blk ! k"
  using assms by (simp add: nth_append)

lemma vocab_nth_pad: "vocab ! 0 = ''<pad>''"
  by (simp add: vocab_def)

lemma vocab_nth_note_on:
  assumes "i < 128" "j < 16"
  shows "vocab ! (1 + (j * 128 + i)) = ''note_on_'' @ str (int i) @ ''_'' @ str (int j)"
proof -
  have "vocab ! (1 + (j * 128 + i)) = note_on_vocab ! (j * 128 + i)"
    using assms
    by (intro nth_block [where pre = "[''<pad>'']"
          and post = "note_off_vocab @ time_shift_vocab @ velocity_vocab @ instrument_vocab
                      @ [''<start>'', ''<end>'']"])
       (simp_all add: vocab_def vocab_lengths)
  then show ?thesis using assms by (simp add: nth_note_on_vocab)
qed

lemma vocab_nth_note_off:
  assumes "i < 128" "j < 16"
  shows "vocab ! (2049 + (j * 128 + i)) = ''note_off_'' @ str (int i) @ ''_'' @ str (int j)"
proof -
  have "vocab ! (2049 + (j * 128 + i)) = note_off_vocab ! (j * 128 + i)"
    using assms
    by (intro nth_block [where pre = "[''<pad>''] @ note_on_vocab"
          and post = "time_shift_vocab @ velocity_vocab @ instrument_vocab
                      @ [''<start>'', ''<end>'']"])
       (simp_all add: vocab_def vocab_lengths)
  then show ?thesis using assms by (simp add: nth_note_off_vocab)
qed

lemma vocab_nth_time_shift:
  assumes "k < 125"
  shows "vocab ! (4097 + k) = ''time_shift_'' @ str (int k)"
proof -
  have "vocab ! (4097 + k) = time_shift_vocab ! k"
    using assms
    by (intro nth_block [where pre = "[''<pad>''] @ note_on_vocab @ note_off_vocab"
          and post = "velocity_vocab @ instrument_vocab @ [''<start>'', ''<end>'']"])
       (simp_all add: vocab_def vocab_lengths)
  then show ?thesis using assms by (simp add: nth_time_shift_vocab)
qed

lemma vocab_nth_velocity:
  assumes "k < 32"
  shows "vocab ! (4222 + k) = ''set_velocity_'' @ str (int k)"
proof -
  have "vocab ! (4222 + k) = velocity_vocab ! k"
    using assms
    by (intro nth_block
          [where pre = "[''<pad>''] @ note_on_vocab @ note_off_vocab @ time_shift_vocab"
          and post = "instrument_vocab @ [''<start>'', ''<end>'']"])
       (simp_all add: vocab_def vocab_lengths)
  then show ?thesis using assms by (simp add: nth_velocity_vocab)
qed

lemma vocab_nth_instrument:
  assumes "k < 128"
  shows "vocab ! (4254 + k) = ''set_instrument_'' @ str (int k)"
proof -
  have "vocab ! (4254 + k) = instrument_vocab ! k"
    using assms
    by (intro nth_block
          [where pre = "[''<pad>''] @ note_on_vocab @ note_off_vocab @ time_shift_vocab
                        @ velocity_vocab"
          and post = "[''<start>'', ''<end>'']"])
       (simp_all add: vocab_def vocab_lengths)
  then show ?thesis using assms by (simp add: nth_instrument_vocab)
qed

lemma vocab_nth_start: "vocab ! 4382 = ''<start>''"
proof -
  have "vocab ! (4382 + 0) = [''<start>'', ''<end>''] ! 0"
    by (intro nth_block
          [where pre = "[''<pad>''] @ note_on_vocab @ note_off_vocab @ time_shift_vocab
                        @ velocity_vocab @ instrument_vocab"
          and post = "[]"])
       (simp_all add: vocab_def vocab_lengths)
  then show ?thesis by simp
qed

lemma vocab_nth_end: "vocab ! 4383 = ''<end>''"
proof -
  have "vocab ! (4382 + 1) = [''<start>'', ''<end>''] ! 1"
    by (intro nth_block
          [where pre = "[''<pad>''] @ note_on_vocab @ note_off_vocab @ time_shift_vocab
                        @ velocity_vocab @ instrument_vocab"
          and post = "[]"])
       (simp_all add: vocab_def vocab_lengths)
  then show ?thesis by simp
qed

section \<open>The vocabulary has no duplicates\<close>

lemma set_note_on_vocab:
  "set note_on_vocab =
     {''note_on_'' @ str i @ ''_'' @ str j | i j. 0 \<le> i \<and> i < 128 \<and> 0 \<le> j \<and> j < 16}"
  by (auto simp: note_on_vocab_def set_py_range manifest_defs) blast

lemma set_note_off_vocab:
  "set note_off_vocab =
     {''note_off_'' @ str i @ ''_'' @ str j | i j. 0 \<le> i \<and> i < 128 \<and> 0 \<le> j \<and> j < 16}"
  by (auto simp: note_off_vocab_def set_py_range manifest_defs) blast

lemma set_time_shift_vocab:
  "set time_shift_vocab = {''time_shift_'' @ str k | k. 0 \<le> k \<and> k < 125}"
  by (auto simp: time_shift_vocab_def set_py_range manifest_defs)

lemma set_velocity_vocab:
  "set velocity_vocab = {''set_velocity_'' @ str k | k. 0 \<le> k \<and> k < 32}"
  by (auto simp: velocity_vocab_def set_py_range manifest_defs)

lemma set_instrument_vocab:
  "set instrument_vocab = {''set_instrument_'' @ str k | k. 0 \<le> k \<and> k < 128}"
  by (auto simp: instrument_vocab_def set_py_range manifest_defs)

lemma take8_note_on: "s \<in> set note_on_vocab \<Longrightarrow> take 8 s = ''note_on_''"
  by (auto simp: set_note_on_vocab)

lemma take8_note_off: "s \<in> set note_off_vocab \<Longrightarrow> take 8 s = ''note_off''"
  by (auto simp: set_note_off_vocab)

lemma take8_time_shift: "s \<in> set time_shift_vocab \<Longrightarrow> take 8 s = ''time_shi''"
  by (auto simp: set_time_shift_vocab)

lemma take8_velocity: "s \<in> set velocity_vocab \<Longrightarrow> take 8 s = ''set_velo''"
  by (auto simp: set_velocity_vocab)

lemma take8_instrument: "s \<in> set instrument_vocab \<Longrightarrow> take 8 s = ''set_inst''"
  by (auto simp: set_instrument_vocab)

lemmas take8_blocks =
  take8_note_on take8_note_off take8_time_shift take8_velocity take8_instrument

lemma distinct_note_on_vocab: "distinct note_on_vocab"
  unfolding note_on_vocab_def
  by (rule distinct_concat_map) (auto simp: distinct_py_range dest: note_str_inject)

lemma distinct_note_off_vocab: "distinct note_off_vocab"
  unfolding note_off_vocab_def
  by (rule distinct_concat_map) (auto simp: distinct_py_range dest: note_str_inject)

lemma distinct_time_shift_vocab: "distinct time_shift_vocab"
  by (auto simp: time_shift_vocab_def distinct_map distinct_py_range inj_on_def dest: str_inject)

lemma distinct_velocity_vocab: "distinct velocity_vocab"
  by (auto simp: velocity_vocab_def distinct_map distinct_py_range inj_on_def dest: str_inject)

lemma distinct_instrument_vocab: "distinct instrument_vocab"
  by (auto simp: instrument_vocab_def distinct_map distinct_py_range inj_on_def dest: str_inject)

lemma disjoint_by_take8:
  assumes "\<And>s. s \<in> set xs \<Longrightarrow> take 8 s = a" "\<And>s. s \<in> set ys \<Longrightarrow> take 8 s = b" "a \<noteq> b"
  shows "set xs \<inter> set ys = {}"
  using assms by fastforce

lemma take8_specials:
  "take 8 ''<pad>'' = ''<pad>''" "take 8 ''<start>'' = ''<start>''" "take 8 ''<end>'' = ''<end>''"
  by simp_all

lemma specials_notin_blocks:
  assumes "s = ''<pad>'' \<or> s = ''<start>'' \<or> s = ''<end>''"
  shows "s \<notin> set note_on_vocab" "s \<notin> set note_off_vocab" "s \<notin> set time_shift_vocab"
    "s \<notin> set velocity_vocab" "s \<notin> set instrument_vocab"
  using assms take8_blocks [of s] by auto

lemma distinct_vocab: "distinct vocab"
proof -
  have d1: "set note_on_vocab \<inter> set note_off_vocab = {}"
    by (rule disjoint_by_take8 [OF take8_note_on take8_note_off]) simp_all
  have d2: "set note_on_vocab \<inter> set time_shift_vocab = {}"
    by (rule disjoint_by_take8 [OF take8_note_on take8_time_shift]) simp_all
  have d3: "set note_on_vocab \<inter> set velocity_vocab = {}"
    by (rule disjoint_by_take8 [OF take8_note_on take8_velocity]) simp_all
  have d4: "set note_on_vocab \<inter> set instrument_vocab = {}"
    by (rule disjoint_by_take8 [OF take8_note_on take8_instrument]) simp_all
  have d5: "set note_off_vocab \<inter> set time_shift_vocab = {}"
    by (rule disjoint_by_take8 [OF take8_note_off take8_time_shift]) simp_all
  have d6: "set note_off_vocab \<inter> set velocity_vocab = {}"
    by (rule disjoint_by_take8 [OF take8_note_off take8_velocity]) simp_all
  have d7: "set note_off_vocab \<inter> set instrument_vocab = {}"
    by (rule disjoint_by_take8 [OF take8_note_off take8_instrument]) simp_all
  have d8: "set time_shift_vocab \<inter> set velocity_vocab = {}"
    by (rule disjoint_by_take8 [OF take8_time_shift take8_velocity]) simp_all
  have d9: "set time_shift_vocab \<inter> set instrument_vocab = {}"
    by (rule disjoint_by_take8 [OF take8_time_shift take8_instrument]) simp_all
  have d10: "set velocity_vocab \<inter> set instrument_vocab = {}"
    by (rule disjoint_by_take8 [OF take8_velocity take8_instrument]) simp_all
  note sp = specials_notin_blocks [of "''<pad>''"] specials_notin_blocks [of "''<start>''"]
    specials_notin_blocks [of "''<end>''"]
  show ?thesis
    unfolding vocab_def
    by (simp add: distinct_note_on_vocab distinct_note_off_vocab distinct_time_shift_vocab
        distinct_velocity_vocab distinct_instrument_vocab d1 d2 d3 d4 d5 d6 d7 d8 d9 d10 sp
        Int_Un_distrib Int_Un_distrib2)
qed

section \<open>Looking tokens up\<close>

lemma index_vocab_nth: "k < 4384 \<Longrightarrow> index vocab (vocab ! k) = Inr (int k)"
  by (simp add: index_def index_opt_nth distinct_vocab length_vocab)

lemma getitem_vocab: "0 \<le> i \<Longrightarrow> i < 4384 \<Longrightarrow> getitem vocab i = Inr (vocab ! nat i)"
  by (simp add: getitem_def length_vocab)

lemma index_note_on:
  assumes "0 \<le> i" "i < 128" "0 \<le> j" "j < 16"
  shows "index vocab (''note_on_'' @ str i @ ''_'' @ str j) = Inr (1 + (j * 128 + i))"
proof -
  have "index vocab (vocab ! (1 + (nat j * 128 + nat i))) = Inr (int (1 + (nat j * 128 + nat i)))"
    using assms by (intro index_vocab_nth) linarith
  moreover have "vocab ! (1 + (nat j * 128 + nat i))
                 = ''note_on_'' @ str (int (nat i)) @ ''_'' @ str (int (nat j))"
    using assms by (intro vocab_nth_note_on) linarith+
  ultimately show ?thesis using assms by simp
qed

lemma index_note_off:
  assumes "0 \<le> i" "i < 128" "0 \<le> j" "j < 16"
  shows "index vocab (''note_off_'' @ str i @ ''_'' @ str j) = Inr (2049 + (j * 128 + i))"
proof -
  have "index vocab (vocab ! (2049 + (nat j * 128 + nat i)))
        = Inr (int (2049 + (nat j * 128 + nat i)))"
    using assms by (intro index_vocab_nth) linarith
  moreover have "vocab ! (2049 + (nat j * 128 + nat i))
                 = ''note_off_'' @ str (int (nat i)) @ ''_'' @ str (int (nat j))"
    using assms by (intro vocab_nth_note_off) linarith+
  ultimately show ?thesis using assms by simp
qed

lemma index_time_shift:
  assumes "0 \<le> k" "k < 125"
  shows "index vocab (''time_shift_'' @ str k) = Inr (4097 + k)"
proof -
  have "index vocab (vocab ! (4097 + nat k)) = Inr (int (4097 + nat k))"
    using assms by (intro index_vocab_nth) linarith
  moreover have "vocab ! (4097 + nat k) = ''time_shift_'' @ str (int (nat k))"
    using assms by (intro vocab_nth_time_shift) linarith
  ultimately show ?thesis using assms by simp
qed

lemma index_velocity:
  assumes "0 \<le> k" "k < 32"
  shows "index vocab (''set_velocity_'' @ str k) = Inr (4222 + k)"
proof -
  have "index vocab (vocab ! (4222 + nat k)) = Inr (int (4222 + nat k))"
    using assms by (intro index_vocab_nth) linarith
  moreover have "vocab ! (4222 + nat k) = ''set_velocity_'' @ str (int (nat k))"
    using assms by (intro vocab_nth_velocity) linarith
  ultimately show ?thesis using assms by simp
qed

lemma index_instrument:
  assumes "0 \<le> k" "k < 128"
  shows "index vocab (''set_instrument_'' @ str k) = Inr (4254 + k)"
proof -
  have "index vocab (vocab ! (4254 + nat k)) = Inr (int (4254 + nat k))"
    using assms by (intro index_vocab_nth) linarith
  moreover have "vocab ! (4254 + nat k) = ''set_instrument_'' @ str (int (nat k))"
    using assms by (intro vocab_nth_instrument) linarith
  ultimately show ?thesis using assms by simp
qed

lemma start_token_value: "start_token = Inr 4382"
  using index_vocab_nth [of 4382] by (simp add: start_token_def vocab_nth_start)

lemma end_token_value: "end_token = Inr 4383"
  using index_vocab_nth [of 4383] by (simp add: end_token_def vocab_nth_end)

lemma pad_token_value: "pad_token = Inr 0"
  using index_vocab_nth [of 0] by (simp add: pad_token_def vocab_nth_pad)

lemma index_miss: "s \<notin> set vocab \<Longrightarrow> index vocab s = Inl (ValueError_not_in_list s)"
  using index_opt_None [of vocab s] by (simp add: index_def)

lemma index_hit: "s \<in> set vocab \<Longrightarrow> \<exists>k. index vocab s = Inr (int k) \<and> k < 4384 \<and> vocab ! k = s"
proof -
  assume "s \<in> set vocab"
  then obtain k where "index_opt vocab s = Some k"
    using index_opt_None [of vocab s] by auto
  then show ?thesis
    using index_opt_Some [of vocab s k] by (simp add: index_def length_vocab)
qed

section \<open>Quantizer coverage\<close>

lemma time_cutter_units:
  assumes "time_cutter d LTH DIV = Inr us" and "u \<in> set us"
  shows "1 \<le> u \<and> u \<le> 125"
proof -
  have "0 \<le> d mod 1000" "d mod 1000 < 1000" by simp_all
  then have "(d mod 1000 + 4) div 8 \<le> 125" by linarith
  then show ?thesis
    using assms by (auto simp: time_cutter_default split: if_splits)
qed

lemma time_cutter_total:
  assumes "0 \<le> d" and "time_cutter d LTH DIV = Inr us"
  shows "sum_list (map ((*) 8) us) = 1000 * (d div 1000) + 8 * ((d mod 1000 + 4) div 8)"
proof -
  have n: "int (nat (d div 1000)) = d div 1000"
    using assms(1) by (simp add: pos_imp_zdiv_nonneg_iff)
  have "0 \<le> (d mod 1000 + 4) div 8"
    by (simp add: pos_imp_zdiv_nonneg_iff)
  then show ?thesis
    using assms(2) n
    by (auto simp: time_cutter_default sum_list_replicate split: if_splits)
qed

text \<open>
  C7 (as stated, refuted).  The gap 1 is cut into no unit at all, so the units sum to 0
  and the error 1 exceeds DIV/2 times the number of units, which is 0.
\<close>

theorem time_cutter_per_unit_counterexample:
  "time_cutter 1 LTH DIV = Inr []
   \<and> \<not> 2 * \<bar>1 - sum_list (map ((*) DIV) [])\<bar> \<le> DIV * int (length ([] :: int list))"
  by (simp add: time_cutter_default)

text \<open>
  C7 (amended).  For every non-negative gap \<open>d\<close>, \<open>time_cutter(d)\<close> returns units
  which, each multiplied by DIV and summed, differ from \<open>d\<close> by at most DIV/2 in all;
  so by at most DIV/2 per unit whenever at least one unit is returned.
\<close>

theorem time_cutter_error:
  assumes "0 \<le> d"
  shows "\<exists>us. time_cutter d LTH DIV = Inr us
            \<and> 2 * \<bar>d - sum_list (map ((*) DIV) us)\<bar> \<le> DIV
            \<and> (us \<noteq> [] \<longrightarrow> 2 * \<bar>d - sum_list (map ((*) DIV) us)\<bar> \<le> DIV * int (length us))"
proof -
  obtain us where us: "time_cutter d LTH DIV = Inr us"
    by (simp add: time_cutter_default)
  have tot: "sum_list (map ((*) 8) us) = 1000 * (d div 1000) + 8 * ((d mod 1000 + 4) div 8)"
    by (rule time_cutter_total [OF assms us])
  have "d = 1000 * (d div 1000) + d mod 1000" by simp
  then have "d - sum_list (map ((*) 8) us) = d mod 1000 - 8 * ((d mod 1000 + 4) div 8)"
    using tot by linarith
  then have err: "\<bar>d - sum_list (map ((*) 8) us)\<bar> \<le> 4"
    using half_up_8_error [of "d mod 1000"] by simp
  have per: "2 * \<bar>d - sum_list (map ((*) 8) us)\<bar> \<le> 8 * int (length us)" if "us \<noteq> []"
  proof -
    have "1 \<le> int (length us)" using that by (cases us) simp_all
    then have "(8::int) \<le> 8 * int (length us)" by simp
    moreover have "2 * \<bar>d - sum_list (map ((*) 8) us)\<bar> \<le> 8" using err by simp
    ultimately show ?thesis by (rule order_trans [rotated])
  qed
  show ?thesis
    using us err per by (auto simp: DIV_value)
qed

theorem time_cutter_error_witness:
  "(0::int) \<le> 500
   \<and> (\<exists>us. time_cutter 500 LTH DIV = Inr us
          \<and> 2 * \<bar>500 - sum_list (map ((*) DIV) us)\<bar> \<le> DIV
          \<and> (us \<noteq> [] \<longrightarrow> 2 * \<bar>500 - sum_list (map ((*) DIV) us)\<bar> \<le> DIV * int (length us)))"
  using time_cutter_error [of 500] by simp

lemma time_cutter_500: "time_cutter 500 LTH DIV = Inr [63]"
  by (simp add: time_cutter_default)

section \<open>Time-shift tokens\<close>

lemma getitem_time_shift:
  assumes "1 \<le> u" "u \<le> 125"
  shows "getitem vocab (base_idx + u) = Inr (''time_shift_'' @ str (u - 1))"
proof -
  have "vocab ! (4097 + nat (u - 1)) = ''time_shift_'' @ str (int (nat (u - 1)))"
    using assms by (intro vocab_nth_time_shift) linarith
  moreover have "nat (4096 + u) = 4097 + nat (u - 1)" using assms by linarith
  ultimately show ?thesis
    using assms by (simp add: base_idx_value getitem_vocab)
qed

lemma time_to_events_loop_units:
  assumes "\<forall>u\<in>set us. 1 \<le> u \<and> u \<le> 125"
  shows "time_to_events_loop us el il
         = Inr (el @ map (\<lambda>u. ''time_shift_'' @ str (u - 1)) us, il @ map (\<lambda>u. base_idx + u) us)"
  using assms
proof (induction us arbitrary: el il)
  case Nil
  then show ?case by simp
next
  case (Cons u us)
  then have "getitem vocab (base_idx + u) = Inr (''time_shift_'' @ str (u - 1))"
    by (intro getitem_time_shift) simp_all
  then show ?case using Cons by simp
qed

text \<open>
  C10.  For every \<open>delta_time\<close>, each index \<open>time_to_events\<close> appends is
  \<open>len(note_on_vocab) + len(note_off_vocab) + u\<close> for a unit \<open>u\<close> of \<open>time_cutter\<close>
  with \<open>1 \<le> u \<le> time_shift_events\<close>; the index lies in the TIME\_SHIFT block of the
  vocabulary, inside \<open>[0, vocab_size)\<close>, so the lookup does not fail; and the token
  there is \<open>time_shift_{u-1}\<close>, one unit less than \<open>time_cutter\<close> counted.
\<close>

theorem time_to_events_tokens:
  "\<exists>us. time_cutter delta LTH DIV = Inr us
        \<and> time_to_events delta el il
            = Inr (el @ map (\<lambda>u. ''time_shift_'' @ str (u - 1)) us,
                   il @ map (\<lambda>u. int (length note_on_vocab) + int (length note_off_vocab) + u) us)
        \<and> (\<forall>u\<in>set us.
              1 \<le> u \<and> u \<le> time_shift_events
              \<and> 0 \<le> base_idx + u \<and> base_idx + u < vocab_size
              \<and> 1 + int (length note_on_vocab) + int (length note_off_vocab) \<le> base_idx + u
              \<and> base_idx + u < 1 + int (length note_on_vocab) + int (length note_off_vocab)
                                + int (length time_shift_vocab)
              \<and> getitem vocab (base_idx + u) = Inr (''time_shift_'' @ str (u - 1)))"
proof -
  obtain us where us: "time_cutter delta LTH DIV = Inr us"
    by (simp add: time_cutter_default)
  have rng: "\<forall>u\<in>set us. 1 \<le> u \<and> u \<le> 125"
    using time_cutter_units [OF us] by blast
  have loop: "time_to_events delta el il
        = Inr (el @ map (\<lambda>u. ''time_shift_'' @ str (u - 1)) us, il @ map (\<lambda>u. base_idx + u) us)"
    using time_to_events_loop_units [OF rng] us by (simp add: time_to_events_def)
  have "\<forall>u\<in>set us. getitem vocab (base_idx + u) = Inr (''time_shift_'' @ str (u - 1))"
    using rng getitem_time_shift by blast
  then show ?thesis
    using us rng loop
    by (auto simp: base_idx_def vocab_lengths vocab_size_value time_shift_events_def)
qed

theorem time_to_events_tokens_witness:
  "time_cutter 1500 LTH DIV = Inr [125, 63]
   \<and> time_to_events 1500 [''<start>''] [4382]
       = Inr ([''<start>'', ''time_shift_124'', ''time_shift_62''], [4382, 4221, 4159])
   \<and> getitem vocab 4221 = Inr ''time_shift_124''"
proof -
  have c: "time_cutter 1500 LTH DIV = Inr [125, 63]"
    by (simp add: time_cutter_default numeral_eq_Suc)
  show ?thesis
    using time_to_events_tokens [of 1500 "[''<start>'']" "[4382]"]
    by (simp add: c vocab_lengths base_idx_value str_def str_nat.simps digit_char_values)
qed

section \<open>Bijectivity\<close>

text \<open>
  C4.  The vocabulary is a bijection between \<open>[0, vocab_size)\<close> and its tokens:
  \<open>vocab.index(vocab[i]) == i\<close> for every index \<open>i\<close> in \<open>[0, vocab_size)\<close>, so no
  token occurs twice, and \<open>vocab[vocab.index(s)] == s\<close> for every token \<open>s\<close> of the
  layout.
\<close>

theorem vocab_bijection:
  "(\<forall>i. 0 \<le> i \<and> i < vocab_size \<longrightarrow>
        (\<exists>s. getitem vocab i = Inr s \<and> index vocab s = Inr i))
   \<and> (\<forall>s. s \<in> set vocab \<longrightarrow>
        (\<exists>i. 0 \<le> i \<and> i < vocab_size \<and> index vocab s = Inr i \<and> getitem vocab i = Inr s))
   \<and> distinct vocab"
proof (intro conjI allI impI)
  fix i :: int
  assume i: "0 \<le> i \<and> i < vocab_size"
  then have "nat i < 4384" unfolding vocab_size_value by linarith
  then have "index vocab (vocab ! nat i) = Inr (int (nat i))"
    by (rule index_vocab_nth)
  then show "\<exists>s. getitem vocab i = Inr s \<and> index vocab s = Inr i"
    using i by (simp add: getitem_vocab vocab_size_value)
next
  fix s
  assume "s \<in> set vocab"
  then obtain k where k: "index vocab s = Inr (int k)" "k < 4384" "vocab ! k = s"
    using index_hit by blast
  then have "getitem vocab (int k) = Inr s"
    by (simp add: getitem_vocab)
  then show "\<exists>i. 0 \<le> i \<and> i < vocab_size \<and> index vocab s = Inr i \<and> getitem vocab i = Inr s"
    using k by (intro exI [of _ "int k"]) (simp add: vocab_size_value)
next
  show "distinct vocab" by (rule distinct_vocab)
qed

lemma start_in_vocab: "''<start>'' \<in> set vocab"
  by (simp add: vocab_def)

theorem vocab_bijection_witness:
  "(0::int) \<le> 4382 \<and> 4382 < vocab_size
   \<and> (\<exists>s. getitem vocab 4382 = Inr s \<and> index vocab s = Inr 4382)
   \<and> ''<start>'' \<in> set vocab
   \<and> (\<exists>i. 0 \<le> i \<and> i < vocab_size \<and> index vocab ''<start>'' = Inr i
          \<and> getitem vocab i = Inr ''<start>'')"
proof -
  have a: "(0::int) \<le> 4382 \<and> 4382 < vocab_size" by (simp add: vocab_size_value)
  show ?thesis
    using vocab_bijection a start_in_vocab by blast
qed

text \<open>The sibling lookup \<open>get_note_event_indices\<close> agrees with the search.\<close>

lemma get_note_event_indices_on:
  assumes "0 \<le> n" "n \<le> 127" "0 \<le> j" "j < 16"
  shows "get_note_event_indices n j True = index vocab (''note_on_'' @ str n @ ''_'' @ str j)"
proof -
  have "index vocab (''note_on_'' @ str n @ ''_'' @ str j) = Inr (1 + (j * 128 + n))"
    using assms by (intro index_note_on) simp_all
  moreover have "get_note_event_indices n j True = Inr (1 + (j * 128 + n))"
    using assms by (simp add: get_note_event_indices_def manifest_defs)
  ultimately show ?thesis by simp
qed

section \<open>Decoding one token\<close>

lemma first_pass_concat: "first_pass mid = foldl collect_msg collect_init (concat mid)"
proof -
  have "foldl (\<lambda>s track. foldl collect_msg s track) s mid = foldl collect_msg s (concat mid)" for s
    by (induction mid arbitrary: s) simp_all
  then show ?thesis by (simp add: first_pass_def)
qed

lemma split_time_shift: "str_split CHR ''_'' (''time_shift_'' @ str k) = [''time'', ''shift'', str k]"
  by (simp add: str_split_no_sep sep_notin_str)

lemma split_set_velocity:
  "str_split CHR ''_'' (''set_velocity_'' @ str k) = [''set'', ''velocity'', str k]"
  by (simp add: str_split_no_sep sep_notin_str)

lemma split_set_instrument:
  "str_split CHR ''_'' (''set_instrument_'' @ str k) = [''set'', ''instrument'', str k]"
  by (simp add: str_split_no_sep sep_notin_str)

lemma split_str_pair: "str_split CHR ''_'' (str n @ CHR ''_'' # str j) = [str n, str j]"
  by (simp add: str_split_append str_split_no_sep sep_notin_str)

lemma split_note_on:
  "str_split CHR ''_'' (''note_on_'' @ str n @ ''_'' @ str j) = [''note'', ''on'', str n, str j]"
  by (simp add: split_str_pair)

lemma split_note_off:
  "str_split CHR ''_'' (''note_off_'' @ str n @ ''_'' @ str j) = [''note'', ''off'', str n, str j]"
  by (simp add: split_str_pair)

lemma decode_special:
  "decode_event s ''<pad>'' = Inr s" "decode_event s ''<start>'' = Inr s"
  "decode_event s ''<end>'' = Inr s"
  by (simp_all add: decode_event_def)

lemma decode_time_shift:
  "decode_event s (''time_shift_'' @ str k) = Inr (s\<lparr>delta_time := delta_time s + k * DIV\<rparr>)"
  by (simp add: decode_event_def startswith_def split_time_shift int_str_str
      del: append.simps)

lemma decode_set_velocity:
  "decode_event s (''set_velocity_'' @ str b)
   = (case bin_to_velocity b BIN_STEP of
        Inl e \<Rightarrow> Inl e
      | Inr v \<Rightarrow> Inr (s\<lparr>current_velocity := v\<rparr>))"
  by (simp add: decode_event_def startswith_def split_set_velocity int_str_str
      del: append.simps)

lemma decode_set_instrument:
  "decode_event s (''set_instrument_'' @ str p)
   = Inr (new_track p p (s\<lparr>current_instrument := p\<rparr>))"
  by (simp add: decode_event_def startswith_def split_set_instrument int_str_str
      del: append.simps)

lemma decode_note_on:
  "decode_event s (''note_on_'' @ str n @ ''_'' @ str j)
   = Inr ((track_append j (Msg_note_on (j mod 16) n (current_velocity s) (delta_time s))
             (new_track j 0 s))\<lparr>delta_time := 0\<rparr>)"
proof -
  have sp: "str_split CHR ''_'' (''note_on_'' @ str n @ ''_'' @ str j)
            = [''note'', ''on'', str n, str j]"
    by (rule split_note_on)
  have nt: "current_velocity (new_track j 0 s) = current_velocity s"
    "delta_time (new_track j 0 s) = delta_time s"
    by (simp_all add: new_track_def)
  have "decode_note s (''note_on_'' @ str n @ ''_'' @ str j)
        = Inr ((track_append j (Msg_note_on (j mod 16) n (current_velocity s) (delta_time s))
             (new_track j 0 s))\<lparr>delta_time := 0\<rparr>)"
    unfolding decode_note_def sp by (simp add: getitem_def int_str_str Let_def nt)
  then show ?thesis
    by (simp add: decode_event_def startswith_def del: append.simps) simp
qed

lemma decode_note_off:
  "decode_event s (''note_off_'' @ str n @ ''_'' @ str j)
   = Inr ((track_append j (Msg_note_off (j mod 16) n 0 (delta_time s))
             (new_track j 0 s))\<lparr>delta_time := 0\<rparr>)"
proof -
  have sp: "str_split CHR ''_'' (''note_off_'' @ str n @ ''_'' @ str j)
            = [''note'', ''off'', str n, str j]"
    by (rule split_note_off)
  have nt: "delta_time (new_track j 0 s) = delta_time s"
    by (simp_all add: new_track_def)
  have "decode_note s (''note_off_'' @ str n @ ''_'' @ str j)
        = Inr ((track_append j (Msg_note_off (j mod 16) n 0 (delta_time s))
             (new_track j 0 s))\<lparr>delta_time := 0\<rparr>)"
    unfolding decode_note_def sp by (simp add: getitem_def int_str_str Let_def nt)
  then show ?thesis
    by (simp add: decode_event_def startswith_def del: append.simps) simp
qed

section \<open>Encoding time gaps\<close>

lemmas str_eval = str_def str_nat.simps digit_char_values

lemma time_to_events_units:
  assumes "time_cutter d LTH DIV = Inr us"
  shows "time_to_events d el il
         = Inr (el @ map (\<lambda>u. ''time_shift_'' @ str (u - 1)) us, il @ map (\<lambda>u. base_idx + u) us)"
proof -
  have "\<forall>u\<in>set us. 1 \<le> u \<and> u \<le> 125"
    using time_cutter_units [OF assms] by blast
  then show ?thesis
    using assms by (simp add: time_to_events_def time_to_events_loop_units)
qed

section \<open>The running time of the first pass\<close>

text \<open>
  C3 (the code at the failing input).  Two tracks, one note-on each, with delta times
  100 and 50: the second event is stamped 150, the running time of the first track
  carried over, and so it is merged after the first, although its own track puts it at 50.
\<close>

theorem first_pass_time_across_tracks:
  "map time (absolute_events (first_pass [[Msg_note_on 0 60 100 100], [Msg_note_on 1 64 100 50]]))
     = [Some 100, Some 150]
   \<and> map note (sort_key time
        (absolute_events (first_pass [[Msg_note_on 0 60 100 100], [Msg_note_on 1 64 100 50]])))
     = [Some 60, Some 64]"
  by (simp add: first_pass_def collect_msg_def collect_init_def note_event_def)

section \<open>The scenario: one note of 500 time units\<close>

lemma scenario_encode:
  "midi_parser [[Msg_note_on 0 60 100 0, Msg_note_off 0 60 64 500]]
   = Inr ([4382, 4247, 61, 4159, 2109, 4383],
          [''<start>'', ''set_velocity_25'', ''note_on_60_0'', ''time_shift_62'',
           ''note_off_60_0'', ''<end>''],
          0)"
proof -
  have v: "index vocab ''set_velocity_25'' = Inr 4247"
    using index_velocity [of 25] by (simp add: str_eval)
  have n1: "index vocab ''note_on_60_0'' = Inr 61"
    using index_note_on [of 60 0] by (simp add: str_eval)
  have n2: "index vocab ''note_off_60_0'' = Inr 2109"
    using index_note_off [of 60 0] by (simp add: str_eval)
  have t: "time_to_events 500 el il = Inr (el @ [''time_shift_62''], il @ [4159])" for el il
    using time_to_events_units [OF time_cutter_500, of el il]
    by (simp add: str_eval base_idx_value)
  have fp: "sort_key time (absolute_events
              (first_pass [[Msg_note_on 0 60 100 0, Msg_note_off 0 60 64 500]]))
            = [\<lparr>type = ''note_on'', note = Some 60, velocity = Some 100, instrument = Some 0,
                time = Some 0, program = None\<rparr>,
               \<lparr>type = ''note_off'', note = Some 60, velocity = Some 64, instrument = Some 0,
                time = Some 500, program = None\<rparr>]"
    by (simp add: first_pass_def collect_msg_def collect_init_def note_event_def)
  have tp: "tempo (first_pass [[Msg_note_on 0 60 100 0, Msg_note_off 0 60 64 500]]) = 0"
    by (simp add: first_pass_def collect_msg_def collect_init_def note_event_def)
  have vb: "velocity_to_bin 100 BIN_STEP = Inr 25"
    by (simp add: velocity_to_bin_def BIN_STEP_value)
  show ?thesis
    unfolding midi_parser_def Let_def fp tp encode_events_def start_token_value end_token_value
    by (simp add: emit_event_def emit_time_def emit_velocity_def emit_token_def
        v n1 n2 t vb fstr_def str_eval)
qed

lemma scenario_decode:
  "list_parser (Some [4382, 4247, 61, 4159, 2109, 4383]) None ''output'' 512820
   = Inr [[Meta_track_name ''output'' 0, Meta_set_tempo 512820 0],
          [Msg_program_change 0 0 0, Msg_note_on 0 60 100 0, Msg_note_off 0 60 0 496]]"
proof -
  have g: "getitem vocab 4382 = Inr ''<start>''" "getitem vocab 4383 = Inr ''<end>''"
    "getitem vocab 4247 = Inr ''set_velocity_25''" "getitem vocab 61 = Inr ''note_on_60_0''"
    "getitem vocab 4159 = Inr ''time_shift_62''" "getitem vocab 2109 = Inr ''note_off_60_0''"
    using vocab_nth_start vocab_nth_end vocab_nth_velocity [of 25] vocab_nth_note_on [of 60 0]
      vocab_nth_time_shift [of 62] vocab_nth_note_off [of 60 0]
    by (simp_all add: getitem_vocab str_eval)
  have d: "decode_event s ''set_velocity_25'' = Inr (s\<lparr>current_velocity := 100\<rparr>)"
    "decode_event s ''time_shift_62'' = Inr (s\<lparr>delta_time := delta_time s + 496\<rparr>)"
    "decode_event s ''note_on_60_0''
     = Inr ((track_append 0 (Msg_note_on 0 60 (current_velocity s) (delta_time s))
              (new_track 0 0 s))\<lparr>delta_time := 0\<rparr>)"
    "decode_event s ''note_off_60_0''
     = Inr ((track_append 0 (Msg_note_off 0 60 0 (delta_time s))
              (new_track 0 0 s))\<lparr>delta_time := 0\<rparr>)" for s
    using decode_set_velocity [of s 25] decode_time_shift [of s 62] decode_note_on [of s 60 0]
      decode_note_off [of s 60 0]
    by (simp_all add: str_eval bin_to_velocity_def BIN_STEP_value DIV_value)
  show ?thesis
    by (simp add: list_parser_def indices_to_events_def g decode_events_def decode_special d
        decode_init_def new_track_def track_append_def)
qed

text \<open>
  C2 (the code at the scenario).  A note-on (note 60, velocity 100, channel 0) at time 0
  and its note-off at time 500 encode to \<open>START, SET_VELOCITY(25), NOTE_ON(60,0),
  time_shift_62, NOTE_OFF(60,0), END\<close>: the time-shift token is the one named 62, one less
  than round(500/8) = 63.  Decoding gives one track with a program change, the note-on at
  relative time 0 and the note-off at relative time 62 * DIV = 496.
\<close>

theorem scenario_note_500:
  "midi_parser [[Msg_note_on 0 60 100 0, Msg_note_off 0 60 64 500]]
     = Inr ([4382, 4247, 61, 4159, 2109, 4383],
            [''<start>'', ''set_velocity_25'', ''note_on_60_0'', ''time_shift_62'',
             ''note_off_60_0'', ''<end>''],
            0)
   \<and> list_parser (Some [4382, 4247, 61, 4159, 2109, 4383]) None ''output'' 512820
     = Inr [[Meta_track_name ''output'' 0, Meta_set_tempo 512820 0],
            [Msg_program_change 0 0 0, Msg_note_on 0 60 100 0, Msg_note_off 0 60 0 496]]"
  using scenario_encode scenario_decode by simp

section \<open>Decoding an index sequence\<close>

lemma set_vocab:
  "set vocab = {''<pad>'', ''<start>'', ''<end>''} \<union> set note_on_vocab \<union> set note_off_vocab
               \<union> set time_shift_vocab \<union> set velocity_vocab \<union> set instrument_vocab"
  by (auto simp: vocab_def)

lemma decode_vocab_token:
  assumes "tok \<in> set vocab"
  shows "\<exists>s'. decode_event s tok = Inr s'"
proof -
  consider "tok = ''<pad>'' \<or> tok = ''<start>'' \<or> tok = ''<end>''"
    | "tok \<in> set note_on_vocab" | "tok \<in> set note_off_vocab" | "tok \<in> set time_shift_vocab"
    | "tok \<in> set velocity_vocab" | "tok \<in> set instrument_vocab"
    using assms unfolding set_vocab by blast
  then show ?thesis
  proof cases
    case 1
    then show ?thesis using decode_special [of s] by auto
  next
    case 2
    then obtain i j where "tok = ''note_on_'' @ str i @ ''_'' @ str j"
      unfolding set_note_on_vocab by blast
    then show ?thesis by (simp only: decode_note_on) blast
  next
    case 3
    then obtain i j where "tok = ''note_off_'' @ str i @ ''_'' @ str j"
      unfolding set_note_off_vocab by blast
    then show ?thesis by (simp only: decode_note_off) blast
  next
    case 4
    then obtain k where "tok = ''time_shift_'' @ str k"
      unfolding set_time_shift_vocab by blast
    then show ?thesis by (simp only: decode_time_shift) blast
  next
    case 5
    then obtain k where k: "tok = ''set_velocity_'' @ str k" "0 \<le> k" "k < 32"
      unfolding set_velocity_vocab by blast
    then have "bin_to_velocity k BIN_STEP = Inr (k * 4)"
      by (simp add: bin_to_velocity_def BIN_STEP_value)
    then show ?thesis using k(1) by (simp only: decode_set_velocity) simp
  next
    case 6
    then obtain k where "tok = ''set_instrument_'' @ str k"
      unfolding set_instrument_vocab by blast
    then show ?thesis by (simp only: decode_set_instrument) blast
  qed
qed

lemma decode_vocab_tokens:
  assumes "set toks \<subseteq> set vocab"
  shows "\<exists>s'. foldl_err decode_event s toks = Inr s'"
  using assms
proof (induction toks arbitrary: s)
  case Nil
  then show ?case by simp
next
  case (Cons tok toks)
  then obtain s1 where "decode_event s tok = Inr s1"
    using decode_vocab_token [of tok s] by auto
  then show ?case using Cons by simp
qed

lemma getitem_in_range:
  assumes "- int (length xs) \<le> i" "i < int (length xs)"
  shows "\<exists>x. getitem xs i = Inr x \<and> x \<in> set xs"
proof (cases "0 \<le> i")
  case True
  then show ?thesis using assms by (simp add: getitem_def)
next
  case False
  then have "nat (int (length xs) + i) < length xs" using assms by linarith
  then show ?thesis using False assms by (simp add: getitem_def)
qed

lemma getitem_out_of_range:
  assumes "i < - int (length xs) \<or> int (length xs) \<le> i"
  shows "getitem xs i = Inl (IndexError i)"
  using assms by (auto simp: getitem_def)

lemma map_err_getitem_ok:
  assumes "\<forall>i\<in>set il. - int (length xs) \<le> i \<and> i < int (length xs)"
  shows "\<exists>el. map_err (getitem xs) il = Inr el \<and> set el \<subseteq> set xs"
  using assms
proof (induction il)
  case Nil
  then show ?case by simp
next
  case (Cons i il)
  then obtain x where "getitem xs i = Inr x" "x \<in> set xs"
    using getitem_in_range [of xs i] by auto
  moreover obtain el where "map_err (getitem xs) il = Inr el" "set el \<subseteq> set xs"
    using Cons by auto
  ultimately show ?case by simp
qed

lemma map_err_getitem_fail:
  assumes "\<exists>i\<in>set il. i < - int (length xs) \<or> int (length xs) \<le> i"
  shows "\<exists>i\<in>set il. (i < - int (length xs) \<or> int (length xs) \<le> i)
                     \<and> map_err (getitem xs) il = Inl (IndexError i)"
  using assms
proof (induction il)
  case Nil
  then show ?case by simp
next
  case (Cons i il)
  show ?case
  proof (cases "i < - int (length xs) \<or> int (length xs) \<le> i")
    case True
    then show ?thesis by (simp add: getitem_out_of_range)
  next
    case False
    then obtain x where "getitem xs i = Inr x"
      using getitem_in_range [of xs i] by auto
    moreover have "\<exists>i\<in>set il. (i < - int (length xs) \<or> int (length xs) \<le> i)
                     \<and> map_err (getitem xs) il = Inl (IndexError i)"
      using Cons False by auto
    ultimately show ?thesis by auto
  qed
qed

text \<open>
  C6 (as stated, refuted).  The index \<open>-130\<close> is not in \<open>[0, vocab_size)\<close>, yet
  \<open>list_parser\<close> accepts it: \<open>vocab[-130]\<close> is \<open>set_instrument_0\<close>, and the call returns
  a track with its program change.
\<close>

theorem list_parser_negative_index_counterexample:
  "\<not> (0 \<le> (-130::int) \<and> -130 < vocab_size)
   \<and> list_parser (Some [-130]) None ''output'' 512820
     = Inr [[Meta_track_name ''output'' 0, Meta_set_tempo 512820 0],
            [Msg_program_change 0 0 0]]"
proof -
  have g: "getitem vocab (-130) = Inr ''set_instrument_0''"
    using vocab_nth_instrument [of 0] by (simp add: getitem_def length_vocab str_eval)
  have d: "decode_event s ''set_instrument_0'' = Inr (new_track 0 0 (s\<lparr>current_instrument := 0\<rparr>))"
    for s
    using decode_set_instrument [of s 0] by (simp add: str_eval)
  show ?thesis
    by (simp add: list_parser_def indices_to_events_def g decode_events_def d decode_init_def
        new_track_def)
qed

lemma list_parser_index_range_basic:
  "((\<exists>i\<in>set il. i < - vocab_size \<or> vocab_size \<le> i)
      \<longrightarrow> (\<exists>i\<in>set il. (i < - vocab_size \<or> vocab_size \<le> i)
                         \<and> list_parser (Some il) None fname tp = Inl (IndexError i)))
   \<and> ((\<forall>i\<in>set il. - vocab_size \<le> i \<and> i < vocab_size)
      \<longrightarrow> (\<exists>mid. list_parser (Some il) None fname tp = Inr mid))"
proof (intro conjI impI)
  assume "\<exists>i\<in>set il. i < - vocab_size \<or> vocab_size \<le> i"
  then have "\<exists>i\<in>set il. (i < - int (length vocab) \<or> int (length vocab) \<le> i)
                     \<and> map_err (getitem vocab) il = Inl (IndexError i)"
    by (intro map_err_getitem_fail) (simp add: vocab_size_def)
  then show "\<exists>i\<in>set il. (i < - vocab_size \<or> vocab_size \<le> i)
                     \<and> list_parser (Some il) None fname tp = Inl (IndexError i)"
    by (auto simp: list_parser_def indices_to_events_def vocab_size_def)
next
  assume "\<forall>i\<in>set il. - vocab_size \<le> i \<and> i < vocab_size"
  then obtain el where el: "map_err (getitem vocab) il = Inr el" "set el \<subseteq> set vocab"
    using map_err_getitem_ok [of il vocab] by (auto simp: vocab_size_def)
  obtain s' where "foldl_err decode_event decode_init el = Inr s'"
    using decode_vocab_tokens [OF el(2)] by blast
  then show "\<exists>mid. list_parser (Some il) None fname tp = Inr mid"
    using el(1) by (simp add: list_parser_def indices_to_events_def decode_events_def)
qed

lemma ints_of_None: "Other_elem \<in> set xs \<Longrightarrow> ints_of xs = None"
proof (induction xs)
  case Nil
  then show ?case by simp
next
  case (Cons x xs)
  then show ?case by (cases x) auto
qed

lemma ints_of_map: "ints_of (map Int_elem il) = Some il"
  by (induction il) simp_all

lemma map_err_getitem_vocab:
  assumes "\<forall>i\<in>set il. - vocab_size \<le> i \<and> i < vocab_size"
  shows "map_err (getitem vocab) il
         = Inr (map (\<lambda>i. vocab ! nat (if i < 0 then vocab_size + i else i)) il)"
  using assms
proof (induction il)
  case Nil
  then show ?case by simp
next
  case (Cons i il)
  then have "getitem vocab i = Inr (vocab ! nat (if i < 0 then vocab_size + i else i))"
    by (auto simp: getitem_def vocab_size_def)
  then show ?case using Cons by simp
qed

lemma list_parser_indices_as_events:
  assumes "\<forall>i\<in>set il. - vocab_size \<le> i \<and> i < vocab_size"
  shows "list_parser (Some il) None fname tp
         = list_parser None
             (Some (map (\<lambda>i. vocab ! nat (if i < 0 then vocab_size + i else i)) il)) fname tp"
  using map_err_getitem_vocab [OF assms]
  by (simp add: list_parser_def indices_to_events_def)

text \<open>
  C6 (amended).  Given an index sequence, \<open>list_parser\<close> fails with a \<open>ValueError\<close>
  when some element is not an integer.  When all are integers it fails exactly when some
  element lies outside \<open>[-vocab_size, vocab_size)\<close>, and then with an \<open>IndexError\<close>
  for such an element; otherwise it returns, and what it returns is the decoding of the
  token sequence that has \<open>vocab[i]\<close> for an index \<open>i \<ge> 0\<close> and
  \<open>vocab[vocab_size + i]\<close> for an index \<open>i < 0\<close>: a negative index is accepted and
  counts from the end of the vocabulary.
\<close>

theorem list_parser_index_range:
  "(Other_elem \<in> set xs
      \<longrightarrow> list_parser_untyped (Some xs) None fname tp = Inl ValueError_int_type)
   \<and> list_parser_untyped (Some (map Int_elem il)) None fname tp
       = list_parser (Some il) None fname tp
   \<and> ((\<exists>i\<in>set il. i < - vocab_size \<or> vocab_size \<le> i)
      \<longrightarrow> (\<exists>i\<in>set il. (i < - vocab_size \<or> vocab_size \<le> i)
                         \<and> list_parser (Some il) None fname tp = Inl (IndexError i)))
   \<and> ((\<forall>i\<in>set il. - vocab_size \<le> i \<and> i < vocab_size)
      \<longrightarrow> list_parser (Some il) None fname tp
            = list_parser None
                (Some (map (\<lambda>i. vocab ! nat (if i < 0 then vocab_size + i else i)) il))
                fname tp
          \<and> (\<exists>mid. list_parser (Some il) None fname tp = Inr mid))"
proof (intro conjI impI)
  assume "Other_elem \<in> set xs"
  then show "list_parser_untyped (Some xs) None fname tp = Inl ValueError_int_type"
    by (simp add: list_parser_untyped_def ints_of_None)
next
  show "list_parser_untyped (Some (map Int_elem il)) None fname tp
        = list_parser (Some il) None fname tp"
    by (simp add: list_parser_untyped_def ints_of_map)
next
  assume "\<exists>i\<in>set il. i < - vocab_size \<or> vocab_size \<le> i"
  then show "\<exists>i\<in>set il. (i < - vocab_size \<or> vocab_size \<le> i)
                     \<and> list_parser (Some il) None fname tp = Inl (IndexError i)"
    using list_parser_index_range_basic [of il fname tp] by blast
next
  assume a: "\<forall>i\<in>set il. - vocab_size \<le> i \<and> i < vocab_size"
  then show "list_parser (Some il) None fname tp
        = list_parser None
            (Some (map (\<lambda>i. vocab ! nat (if i < 0 then vocab_size + i else i)) il)) fname tp"
    by (rule list_parser_indices_as_events)
  show "\<exists>mid. list_parser (Some il) None fname tp = Inr mid"
    using a list_parser_index_range_basic [of il fname tp] by blast
qed

theorem list_parser_index_range_witness:
  "list_parser_untyped (Some [Int_elem 5, Other_elem]) None ''output'' 512820
     = Inl ValueError_int_type
   \<and> list_parser_untyped (Some [Int_elem (-1)]) None ''output'' 512820
     = list_parser (Some [-1]) None ''output'' 512820
   \<and> list_parser (Some [4384]) None ''output'' 512820 = Inl (IndexError 4384)
   \<and> list_parser (Some [-1]) None ''output'' 512820
     = list_parser None (Some [''<end>'']) ''output'' 512820
   \<and> (\<exists>mid. list_parser (Some [-1]) None ''output'' 512820 = Inr mid)"
proof -
  have a: "list_parser_untyped (Some [Int_elem 5, Other_elem]) None ''output'' 512820
             = Inl ValueError_int_type"
    and b: "list_parser (Some [4384]) None ''output'' 512820 = Inl (IndexError 4384)"
    using list_parser_index_range [of "[Int_elem 5, Other_elem]" "''output''" 512820 "[4384]"]
    by (simp_all add: vocab_size_value)
  have c: "list_parser_untyped (Some [Int_elem (-1)]) None ''output'' 512820
             = list_parser (Some [-1]) None ''output'' 512820"
    using list_parser_index_range [of "[]" "''output''" 512820 "[-1]"] by simp
  have r: "\<forall>i\<in>set [-1::int]. - vocab_size \<le> i \<and> i < vocab_size"
    by (simp add: vocab_size_value)
  have d: "list_parser (Some [-1]) None ''output'' 512820
             = list_parser None
                 (Some (map (\<lambda>i. vocab ! nat (if i < 0 then vocab_size + i else i)) [-1]))
                 ''output'' 512820"
    and e: "\<exists>mid. list_parser (Some [-1]) None ''output'' 512820 = Inr mid"
    using list_parser_index_range [of "[]" "''output''" 512820 "[-1]"] r by blast+
  have "map (\<lambda>i. vocab ! nat (if i < 0 then vocab_size + i else i)) [-1] = [''<end>'']"
    by (simp add: vocab_size_value vocab_nth_end)
  then have d': "list_parser (Some [-1]) None ''output'' 512820
             = list_parser None (Some [''<end>'']) ''output'' 512820"
    using d by (simp only:)
  show ?thesis
    using a b c d' e by blast
qed

section \<open>One step of the second pass\<close>

lemma foldl_err_append:
  "foldl_err f s (xs @ ys)
   = (case foldl_err f s xs of Inl e \<Rightarrow> Inl e | Inr s' \<Rightarrow> foldl_err f s' ys)"
  by (induction xs arbitrary: s) (simp_all split: sum.splits)

text \<open>What one step of the second pass appends.\<close>

lemma emit_token_Inr:
  assumes "emit_token s tok = Inr s'"
  shows "\<exists>i. index vocab tok = Inr i \<and> event_list s' = event_list s @ [tok]
             \<and> index_list s' = index_list s @ [i] \<and> last_time s' = last_time s"
  using assms by (auto simp: emit_token_def split: sum.splits)

lemma emit_time_Inr:
  assumes "emit_time s ev = Inr s'"
  shows "\<exists>us. (\<forall>u\<in>set us. 1 \<le> u \<and> u \<le> 125)
              \<and> event_list s' = event_list s @ map (\<lambda>u. ''time_shift_'' @ str (u - 1)) us
              \<and> index_list s' = index_list s @ map (\<lambda>u. base_idx + u) us"
proof (cases "time ev")
  case None
  then show ?thesis using assms by (simp add: emit_time_def)
next
  case (Some t)
  show ?thesis
  proof (cases "t > last_time s")
    case False
    then have "s' = s" using assms Some by (simp add: emit_time_def)
    then show ?thesis by (intro exI [of _ "[]"]) simp
  next
    case True
    obtain us where us: "time_cutter (t - last_time s) LTH DIV = Inr us"
      by (simp add: time_cutter_default)
    have "\<forall>u\<in>set us. 1 \<le> u \<and> u \<le> 125"
      using time_cutter_units [OF us] by blast
    then show ?thesis
      using assms Some True time_to_events_units [OF us, of "event_list s" "index_list s"]
      by (intro exI [of _ us]) (auto simp: emit_time_def)
  qed
qed

section \<open>The invariant of the second pass\<close>

lemma preceded_snoc:
  assumes "\<forall>k<length xs. P (xs ! k) \<longrightarrow> 0 < k \<and> Q (xs ! (k - 1))"
    and "P t \<longrightarrow> xs \<noteq> [] \<and> Q (last xs)"
  shows "\<forall>k<length (xs @ [t]). P ((xs @ [t]) ! k) \<longrightarrow> 0 < k \<and> Q ((xs @ [t]) ! (k - 1))"
proof (intro allI impI)
  fix k
  assume k: "k < length (xs @ [t])" and p: "P ((xs @ [t]) ! k)"
  show "0 < k \<and> Q ((xs @ [t]) ! (k - 1))"
  proof (cases "k < length xs")
    case True
    then show ?thesis using assms(1) p by (auto simp: nth_append)
  next
    case False
    then have kl: "k = length xs" using k by simp
    then have "P t" using p by simp
    then have "xs \<noteq> []" "Q (last xs)" using assms(2) by auto
    then show ?thesis using kl by (simp add: nth_append last_conv_nth)
  qed
qed

lemma preceded_append:
  assumes "\<forall>k<length xs. P (xs ! k) \<longrightarrow> 0 < k \<and> Q (xs ! (k - 1))"
    and "\<forall>y\<in>set ys. \<not> P y"
  shows "\<forall>k<length (xs @ ys). P ((xs @ ys) ! k) \<longrightarrow> 0 < k \<and> Q ((xs @ ys) ! (k - 1))"
  using assms(2)
proof (induction ys rule: rev_induct)
  case Nil
  then show ?case using assms(1) by simp
next
  case (snoc y ys)
  then have "\<forall>k<length (xs @ ys). P ((xs @ ys) ! k) \<longrightarrow> 0 < k \<and> Q ((xs @ ys) ! (k - 1))"
    by simp
  moreover have "P y \<longrightarrow> xs @ ys \<noteq> [] \<and> Q (last (xs @ ys))" using snoc.prems by simp
  ultimately show ?case
    using preceded_snoc [of "xs @ ys" P Q y] by simp
qed

lemma startswith_facts:
  "\<not> startswith (''time_shift_'' @ x) ''note_on_''"
  "\<not> startswith (''set_instrument_'' @ x) ''note_on_''"
  "\<not> startswith (''set_velocity_'' @ x) ''note_on_''"
  "\<not> startswith (''note_off'' @ ''_'' @ x) ''note_on_''"
  "\<not> startswith ''<end>'' ''note_on_''"
  "\<not> startswith ''<start>'' ''note_on_''"
  "startswith (''set_velocity_'' @ x) ''set_velocity_''"
  "startswith (''note_on_'' @ x) ''note_on_''"
  by (simp_all add: startswith_def)

lemma list_all2_index_snoc:
  "list_all2 (\<lambda>s i. index vocab s = Inr i) el il \<Longrightarrow> index vocab t = Inr i \<Longrightarrow>
   list_all2 (\<lambda>s i. index vocab s = Inr i) (el @ [t]) (il @ [i])"
  by (simp add: list_all2_appendI)

lemma list_all2_index_shifts:
  assumes "\<forall>u\<in>set us. 1 \<le> u \<and> u \<le> 125"
  shows "list_all2 (\<lambda>s i. index vocab s = Inr i)
           (map (\<lambda>u. ''time_shift_'' @ str (u - 1)) us) (map (\<lambda>u. base_idx + u) us)"
  using assms
proof (induction us)
  case Nil
  then show ?case by simp
next
  case (Cons u us)
  then have "index vocab (''time_shift_'' @ str (u - 1)) = Inr (4097 + (u - 1))"
    by (intro index_time_shift) simp_all
  then show ?case using Cons by (simp add: base_idx_value)
qed

lemma emit_event_invariant:
  assumes step: "emit_event s ev = Inr s'"
    and pre: "\<forall>k<length (event_list s). startswith (event_list s ! k) ''note_on_''
                \<longrightarrow> 0 < k \<and> startswith (event_list s ! (k - 1)) ''set_velocity_''"
    and idx: "list_all2 (\<lambda>s i. index vocab s = Inr i) (event_list s) (index_list s)"
    and hd: "event_list s \<noteq> [] \<and> hd (event_list s) = ''<start>''"
  shows "(\<forall>k<length (event_list s'). startswith (event_list s' ! k) ''note_on_''
                \<longrightarrow> 0 < k \<and> startswith (event_list s' ! (k - 1)) ''set_velocity_'')
         \<and> list_all2 (\<lambda>s i. index vocab s = Inr i) (event_list s') (index_list s')
         \<and> event_list s' \<noteq> [] \<and> hd (event_list s') = ''<start>''"
proof -
  let ?P = "\<lambda>x. startswith x ''note_on_''" and ?Q = "\<lambda>x. startswith x ''set_velocity_''"
  let ?N = "\<lambda>el. \<forall>k<length el. ?P (el ! k) \<longrightarrow> 0 < k \<and> ?Q (el ! (k - 1))"
  let ?I = "\<lambda>st. ?N (event_list st)
               \<and> list_all2 (\<lambda>s i. index vocab s = Inr i) (event_list st) (index_list st)
               \<and> event_list st \<noteq> [] \<and> hd (event_list st) = ''<start>''"
  obtain s1 where s1: "emit_time s ev = Inr s1"
    using step by (auto simp: emit_event_def split: sum.splits)
  obtain us where us: "\<forall>u\<in>set us. 1 \<le> u \<and> u \<le> 125"
    "event_list s1 = event_list s @ map (\<lambda>u. ''time_shift_'' @ str (u - 1)) us"
    "index_list s1 = index_list s @ map (\<lambda>u. base_idx + u) us"
    using emit_time_Inr [OF s1] by blast
  have "?N (event_list s @ map (\<lambda>u. ''time_shift_'' @ str (u - 1)) us)"
    by (rule preceded_append [OF pre]) (auto simp: startswith_def)
  then have I1: "?I s1"
    using us idx hd list_all2_index_shifts [OF us(1)] by (simp add: list_all2_appendI)
  have tok: "?I b"
    if a: "?I a" and e: "emit_token a t = Inr b" and l: "?P t \<longrightarrow> ?Q (last (event_list a))"
    for a b t
  proof -
    obtain i where i: "index vocab t = Inr i" "event_list b = event_list a @ [t]"
      "index_list b = index_list a @ [i]"
      using emit_token_Inr [OF e] by blast
    have "?N (event_list a @ [t])"
      using a l by (intro preceded_snoc) auto
    then show ?thesis
      using a i by (simp add: list_all2_appendI)
  qed
  consider (inst) "type ev = ''set_instrument''"
    | (nt) "type ev \<noteq> ''set_instrument''" "type ev = ''note_on'' \<or> type ev = ''note_off''"
    | (other) "type ev \<noteq> ''set_instrument''" "type ev \<noteq> ''note_on''" "type ev \<noteq> ''note_off''"
    by blast
  then show ?thesis
  proof cases
    case inst
    then have e: "emit_token s1 (''set_instrument_'' @ fstr (program ev)) = Inr s'"
      using step s1 by (simp add: emit_event_def)
    have "\<not> ?P (''set_instrument_'' @ fstr (program ev))"
      by (simp add: startswith_def)
    then show ?thesis
      by (intro tok [OF I1 e]) simp
  next
    case other
    then have "s' = s1" using step s1 by (simp add: emit_event_def)
    then show ?thesis using I1 by simp
  next
    case nt
    obtain s2 where s2: "emit_velocity s1 ev = Inr s2"
      and fin: "emit_token s2 (type ev @ ''_'' @ fstr (note ev) @ ''_'' @ fstr (instrument ev))
                = Inr s'"
      using step s1 nt by (auto simp: emit_event_def split: sum.splits)
    show ?thesis
    proof (cases "type ev = ''note_on''")
      case True
      then obtain b where b: "emit_token s1 (''set_velocity_'' @ str b) = Inr s2"
        using s2 by (auto simp: emit_velocity_def split: option.splits sum.splits)
      have "\<not> ?P (''set_velocity_'' @ str b)"
        by (simp add: startswith_def)
      then have I2: "?I s2"
        by (intro tok [OF I1 b]) simp
      have "last (event_list s2) = ''set_velocity_'' @ str b"
        using emit_token_Inr [OF b] by auto
      then have "?Q (last (event_list s2))" by (simp add: startswith_def)
      then show ?thesis
        by (intro tok [OF I2 fin]) simp
    next
      case False
      then have off: "type ev = ''note_off''" using nt by simp
      then have "s2 = s1" using s2 by (simp add: emit_velocity_def)
      then have I2: "?I s2" using I1 by simp
      have "\<not> ?P (type ev @ ''_'' @ fstr (note ev) @ ''_'' @ fstr (instrument ev))"
        using off by (simp add: startswith_def)
      then show ?thesis
        by (intro tok [OF I2 fin]) simp
    qed
  qed
qed

section \<open>Structural well-formedness\<close>

lemma startswith_split: "startswith s p \<Longrightarrow> \<exists>x. s = p @ x"
  unfolding startswith_def by (metis append_take_drop_id)

lemma index_note_on_block:
  assumes "index vocab s = Inr i" "1 \<le> i" "i \<le> 2048"
  shows "startswith s ''note_on_''"
proof -
  obtain k where k: "index_opt vocab s = Some k" "i = int k"
    using assms(1) by (auto simp: index_def split: option.splits)
  have s: "vocab ! k = s" using index_opt_Some [OF k(1)] by simp
  define m where "m = k - 1"
  have "1 \<le> k" "k \<le> 2048" using assms(2,3) k(2) by simp_all
  then have km: "k = 1 + m" and m: "m < 16 * 128" by (simp_all add: m_def)
  have j: "m div 128 < 16" using m by (rule less_mult_imp_div_less)
  have r: "m mod 128 < 128" by simp
  have e: "1 + (m div 128 * 128 + m mod 128) = k" by (simp add: km)
  have "vocab ! (1 + (m div 128 * 128 + m mod 128))
        = ''note_on_'' @ str (int (m mod 128)) @ ''_'' @ str (int (m div 128))"
    by (rule vocab_nth_note_on [OF r j])
  then have "s = ''note_on_'' @ str (int (m mod 128)) @ ''_'' @ str (int (m div 128))"
    by (simp only: e s)
  then show ?thesis by (simp add: startswith_def)
qed

lemma index_velocity_block:
  assumes "index vocab s = Inr i" "startswith s ''set_velocity_''"
  shows "4222 \<le> i \<and> i \<le> 4253"
proof -
  obtain x where "s = ''set_velocity_'' @ x"
    using startswith_split [OF assms(2)] by blast
  then have t8: "take 8 s = ''set_velo''" by simp
  have "s \<in> set vocab"
    using assms(1) index_opt_None [of vocab s] by (auto simp: index_def split: option.splits)
  then have "s \<in> set velocity_vocab"
    unfolding set_vocab using t8 take8_blocks [of s] by auto
  then obtain k where "s = ''set_velocity_'' @ str k" "0 \<le> k" "k < 32"
    unfolding set_velocity_vocab by blast
  then show ?thesis using index_velocity [of k] assms(1) by simp
qed

lemma foldl_err_emit_invariant:
  assumes "foldl_err emit_event s evs = Inr s'"
    and "\<forall>k<length (event_list s). startswith (event_list s ! k) ''note_on_''
                \<longrightarrow> 0 < k \<and> startswith (event_list s ! (k - 1)) ''set_velocity_''"
    and "list_all2 (\<lambda>s i. index vocab s = Inr i) (event_list s) (index_list s)"
    and "event_list s \<noteq> [] \<and> hd (event_list s) = ''<start>''"
  shows "(\<forall>k<length (event_list s'). startswith (event_list s' ! k) ''note_on_''
                \<longrightarrow> 0 < k \<and> startswith (event_list s' ! (k - 1)) ''set_velocity_'')
         \<and> list_all2 (\<lambda>s i. index vocab s = Inr i) (event_list s') (index_list s')
         \<and> event_list s' \<noteq> [] \<and> hd (event_list s') = ''<start>''"
  using assms
proof (induction evs arbitrary: s)
  case Nil
  then show ?case by simp
next
  case (Cons ev evs)
  from Cons.prems(1) obtain s1 where s1: "emit_event s ev = Inr s1"
    and rest: "foldl_err emit_event s1 evs = Inr s'"
    by (auto split: sum.splits)
  from emit_event_invariant [OF s1 Cons.prems(2,3,4)]
  show ?case by (intro Cons.IH [OF rest]) simp_all
qed

lemma encode_events_well_formed:
  assumes "encode_events evs = Inr s"
  shows "(\<forall>k<length (event_list s). startswith (event_list s ! k) ''note_on_''
                \<longrightarrow> 0 < k \<and> startswith (event_list s ! (k - 1)) ''set_velocity_'')
         \<and> list_all2 (\<lambda>s i. index vocab s = Inr i) (event_list s) (index_list s)
         \<and> event_list s \<noteq> [] \<and> hd (event_list s) = ''<start>'' \<and> last (event_list s) = ''<end>''"
proof -
  let ?s0 = "\<lparr>event_list = [''<start>''], index_list = [4382], last_time = 0\<rparr>"
  obtain s1 where s1: "foldl_err emit_event ?s0 evs = Inr s1"
    and s: "s = s1\<lparr>event_list := event_list s1 @ [''<end>''],
                  index_list := index_list s1 @ [4383]\<rparr>"
    using assms
    by (auto simp: encode_events_def start_token_value end_token_value split: sum.splits)
  have i0: "index vocab ''<start>'' = Inr 4382" "index vocab ''<end>'' = Inr 4383"
    using start_token_value end_token_value by (simp_all add: start_token_def end_token_def)
  have inv: "(\<forall>k<length (event_list s1). startswith (event_list s1 ! k) ''note_on_''
                \<longrightarrow> 0 < k \<and> startswith (event_list s1 ! (k - 1)) ''set_velocity_'')
         \<and> list_all2 (\<lambda>s i. index vocab s = Inr i) (event_list s1) (index_list s1)
         \<and> event_list s1 \<noteq> [] \<and> hd (event_list s1) = ''<start>''"
    by (rule foldl_err_emit_invariant [OF s1]) (simp_all add: i0 startswith_def)
  have "\<forall>k<length (event_list s1 @ [''<end>'']).
          startswith ((event_list s1 @ [''<end>'']) ! k) ''note_on_''
          \<longrightarrow> 0 < k \<and> startswith ((event_list s1 @ [''<end>'']) ! (k - 1)) ''set_velocity_''"
    using inv by (intro preceded_snoc) (simp_all add: startswith_def)
  then show ?thesis
    using inv s i0 by (simp add: list_all2_appendI)
qed

text \<open>
  C5.  Every event sequence \<open>midi_parser\<close> returns starts with START and ends with
  END, and so does the index sequence; every NOTE\_ON token in it has a SET\_VELOCITY token
  immediately before it, in the event sequence (by the token strings) and in the index
  sequence (by the index blocks of the two token kinds).
\<close>

theorem midi_parser_well_formed:
  assumes "midi_parser mid = Inr (il, el, tp)"
  shows "el \<noteq> [] \<and> hd el = ''<start>'' \<and> last el = ''<end>''
         \<and> length il = length el \<and> start_token = Inr (hd il) \<and> end_token = Inr (last il)
         \<and> (\<forall>k<length el. startswith (el ! k) ''note_on_''
                \<longrightarrow> 0 < k \<and> startswith (el ! (k - 1)) ''set_velocity_'')
         \<and> (\<forall>k<length il. 1 \<le> il ! k \<and> il ! k \<le> int (length note_on_vocab)
                \<longrightarrow> 0 < k
                    \<and> 1 + int (length note_on_vocab) + int (length note_off_vocab)
                          + int (length time_shift_vocab) \<le> il ! (k - 1)
                    \<and> il ! (k - 1) < 1 + int (length note_on_vocab) + int (length note_off_vocab)
                          + int (length time_shift_vocab) + int (length velocity_vocab))"
proof -
  obtain s where s: "encode_events (sort_key time (absolute_events (first_pass mid))) = Inr s"
    and il: "il = index_list s" and el: "el = event_list s"
    using assms by (auto simp: midi_parser_def Let_def split: sum.splits)
  have wf: "\<forall>k<length el. startswith (el ! k) ''note_on_''
                \<longrightarrow> 0 < k \<and> startswith (el ! (k - 1)) ''set_velocity_''"
    and ix: "list_all2 (\<lambda>s i. index vocab s = Inr i) el il"
    and ends: "el \<noteq> []" "hd el = ''<start>''" "last el = ''<end>''"
    using encode_events_well_formed [OF s] il el by simp_all
  have len: "length il = length el" using ix by (simp add: list_all2_lengthD)
  have nth: "index vocab (el ! k) = Inr (il ! k)" if "k < length el" for k
    using ix that by (simp add: list_all2_conv_all_nth)
  have "index vocab (el ! 0) = Inr (il ! 0)" using nth ends(1) by simp
  then have st: "start_token = Inr (hd il)"
    using ends len by (cases el; cases il) (simp_all add: start_token_def)
  have "index vocab (el ! (length el - 1)) = Inr (il ! (length el - 1))"
    using nth ends(1) by simp
  moreover have "il \<noteq> []" using ends(1) len by auto
  then have "last il = il ! (length el - 1)" using len by (simp add: last_conv_nth)
  moreover have "el ! (length el - 1) = ''<end>''" using ends by (simp add: last_conv_nth)
  ultimately have en: "end_token = Inr (last il)"
    by (simp add: end_token_def)
  have idx: "0 < k \<and> 4222 \<le> il ! (k - 1) \<and> il ! (k - 1) \<le> 4253"
    if k: "k < length il" and on: "1 \<le> il ! k" "il ! k \<le> 2048" for k
  proof -
    have "startswith (el ! k) ''note_on_''"
      using index_note_on_block [OF nth on] k len by simp
    then have p: "0 < k" "startswith (el ! (k - 1)) ''set_velocity_''"
      using wf k len by simp_all
    have "index vocab (el ! (k - 1)) = Inr (il ! (k - 1))"
      using nth [of "k - 1"] k len by simp
    then show ?thesis
      using index_velocity_block p by blast
  qed
  have "\<forall>k<length il. 1 \<le> il ! k \<and> il ! k \<le> 2048
          \<longrightarrow> 0 < k \<and> 4222 \<le> il ! (k - 1) \<and> il ! (k - 1) < 4254"
    using idx by force
  then show ?thesis
    using ends len st en wf by (simp add: vocab_lengths)
qed

theorem midi_parser_well_formed_witness:
  "midi_parser [[Msg_note_on 0 60 100 0, Msg_note_off 0 60 64 500]]
     = Inr ([4382, 4247, 61, 4159, 2109, 4383],
            [''<start>'', ''set_velocity_25'', ''note_on_60_0'', ''time_shift_62'',
             ''note_off_60_0'', ''<end>''], 0)
   \<and> start_token = Inr 4382 \<and> end_token = Inr 4383
   \<and> startswith ''note_on_60_0'' ''note_on_'' \<and> startswith ''set_velocity_25'' ''set_velocity_''"
  using midi_parser_well_formed [OF scenario_encode] scenario_encode
  by (simp add: startswith_def)

section \<open>Tokens inside and outside the vocabulary\<close>

lemma note_on_token_in_vocab:
  "(''note_on_'' @ str n @ ''_'' @ str j \<in> set vocab) = (0 \<le> n \<and> n < 128 \<and> 0 \<le> j \<and> j < 16)"
proof
  assume "''note_on_'' @ str n @ ''_'' @ str j \<in> set vocab"
  then have "''note_on_'' @ str n @ ''_'' @ str j \<in> set note_on_vocab"
    unfolding set_vocab using take8_blocks [of "''note_on_'' @ str n @ ''_'' @ str j"] by auto
  then obtain n' j' where "str n @ CHR ''_'' # str j = str n' @ CHR ''_'' # str j'"
    "0 \<le> n'" "n' < 128" "0 \<le> j'" "j' < 16"
    unfolding set_note_on_vocab by auto
  then show "0 \<le> n \<and> n < 128 \<and> 0 \<le> j \<and> j < 16"
    using note_str_inject [of n j n' j'] by simp
next
  assume "0 \<le> n \<and> n < 128 \<and> 0 \<le> j \<and> j < 16"
  then have "''note_on_'' @ str n @ ''_'' @ str j \<in> set note_on_vocab"
    unfolding set_note_on_vocab by blast
  then show "''note_on_'' @ str n @ ''_'' @ str j \<in> set vocab"
    unfolding set_vocab by blast
qed

lemma note_off_token_in_vocab:
  "(''note_off_'' @ str n @ ''_'' @ str j \<in> set vocab) = (0 \<le> n \<and> n < 128 \<and> 0 \<le> j \<and> j < 16)"
proof
  assume "''note_off_'' @ str n @ ''_'' @ str j \<in> set vocab"
  then have "''note_off_'' @ str n @ ''_'' @ str j \<in> set note_off_vocab"
    unfolding set_vocab using take8_blocks [of "''note_off_'' @ str n @ ''_'' @ str j"] by auto
  then obtain n' j' where "str n @ CHR ''_'' # str j = str n' @ CHR ''_'' # str j'"
    "0 \<le> n'" "n' < 128" "0 \<le> j'" "j' < 16"
    unfolding set_note_off_vocab by auto
  then show "0 \<le> n \<and> n < 128 \<and> 0 \<le> j \<and> j < 16"
    using note_str_inject [of n j n' j'] by simp
next
  assume "0 \<le> n \<and> n < 128 \<and> 0 \<le> j \<and> j < 16"
  then have "''note_off_'' @ str n @ ''_'' @ str j \<in> set note_off_vocab"
    unfolding set_note_off_vocab by blast
  then show "''note_off_'' @ str n @ ''_'' @ str j \<in> set vocab"
    unfolding set_vocab by blast
qed

lemma emit_token_cases:
  "(\<exists>s'. emit_token s tok = Inr s' \<and> last_time s' = last_time s)
   \<or> (emit_token s tok = Inl (ValueError_not_in_list tok) \<and> tok \<notin> set vocab)"
  using index_opt_None [of vocab tok]
  by (auto simp: emit_token_def index_def split: option.splits)

lemma emit_token_hit: "tok \<in> set vocab \<Longrightarrow> \<exists>s'. emit_token s tok = Inr s'"
  using emit_token_cases [of s tok] by auto

lemma emit_token_miss:
  "tok \<notin> set vocab \<Longrightarrow> emit_token s tok = Inl (ValueError_not_in_list tok)"
  using emit_token_cases [of s tok] emit_token_Inr [of s tok] index_miss [of tok] by auto

lemma emit_time_total: "time ev = Some t \<Longrightarrow> \<exists>s'. emit_time s ev = Inr s'"
proof -
  assume t: "time ev = Some t"
  obtain us where us: "time_cutter (t - last_time s) LTH DIV = Inr us"
    by (simp add: time_cutter_default)
  show ?thesis
    using t time_to_events_units [OF us, of "event_list s" "index_list s"]
    by (simp add: emit_time_def)
qed

section \<open>The events of the first pass\<close>

lemma semantic_event_collected: "semantic_event ev \<Longrightarrow> collected_event ev"
  by (auto simp: semantic_event_def collected_event_def max_instruments_def
      split: option.splits if_splits)

lemma collect_msg_collected:
  assumes "valid_msg m"
    and "\<forall>p\<in>ran (channel_programs s). 0 \<le> p \<and> p \<le> 127"
    and "\<forall>ev\<in>set (absolute_events s). collected_event ev"
  shows "(\<forall>p\<in>ran (channel_programs (collect_msg s m)). 0 \<le> p \<and> p \<le> 127)
         \<and> (\<forall>ev\<in>set (absolute_events (collect_msg s m)). collected_event ev)"
proof (cases m)
  case (Msg_note_on c n v t)
  have "0 \<le> (case channel_programs s c of None \<Rightarrow> 0 | Some p \<Rightarrow> p)
        \<and> (case channel_programs s c of None \<Rightarrow> 0 | Some p \<Rightarrow> p) \<le> 127"
    using assms(2) by (auto simp: ran_def split: option.splits)
  then show ?thesis
    using assms Msg_note_on
    by (auto simp: collect_msg_def note_event_def collected_event_def)
next
  case (Msg_note_off c n v t)
  have "0 \<le> (case channel_programs s c of None \<Rightarrow> 0 | Some p \<Rightarrow> p)
        \<and> (case channel_programs s c of None \<Rightarrow> 0 | Some p \<Rightarrow> p) \<le> 127"
    using assms(2) by (auto simp: ran_def split: option.splits)
  then show ?thesis
    using assms Msg_note_off
    by (auto simp: collect_msg_def note_event_def collected_event_def)
next
  case (Msg_program_change c p t)
  then show ?thesis
    using assms
    by (auto simp: collect_msg_def collected_event_def ran_def split: if_splits)
qed (use assms in \<open>auto simp: collect_msg_def Let_def split: if_splits\<close>)

lemma foldl_collect_collected:
  assumes "\<forall>m\<in>set ms. valid_msg m"
    and "\<forall>p\<in>ran (channel_programs s). 0 \<le> p \<and> p \<le> 127"
    and "\<forall>ev\<in>set (absolute_events s). collected_event ev"
  shows "\<forall>ev\<in>set (absolute_events (foldl collect_msg s ms)). collected_event ev"
  using assms
proof (induction ms arbitrary: s)
  case Nil
  then show ?case by simp
next
  case (Cons m ms)
  have "(\<forall>p\<in>ran (channel_programs (collect_msg s m)). 0 \<le> p \<and> p \<le> 127)
        \<and> (\<forall>ev\<in>set (absolute_events (collect_msg s m)). collected_event ev)"
    using Cons.prems by (intro collect_msg_collected) simp_all
  then have a: "\<forall>p\<in>ran (channel_programs (collect_msg s m)). 0 \<le> p \<and> p \<le> 127"
    and b: "\<forall>ev\<in>set (absolute_events (collect_msg s m)). collected_event ev"
    by blast+
  have "\<forall>m\<in>set ms. valid_msg m" using Cons.prems(1) by simp
  then have "\<forall>ev\<in>set (absolute_events (foldl collect_msg (collect_msg s m) ms)).
               collected_event ev"
    using a b by (rule Cons.IH)
  then show ?case by simp
qed

lemma first_pass_collected:
  assumes "\<forall>m\<in>set (concat mid). valid_msg m"
  shows "\<forall>ev\<in>set (absolute_events (first_pass mid)). collected_event ev"
  unfolding first_pass_concat
  by (rule foldl_collect_collected [OF assms]) (simp_all add: collect_init_def)

section \<open>How the second pass can fail\<close>

lemma set_velocity_token_in_vocab:
  assumes "0 \<le> v" "v \<le> 127"
  shows "velocity_to_bin v BIN_STEP = Inr (v div 4)"
    and "''set_velocity_'' @ str (v div 4) \<in> set vocab"
proof -
  show "velocity_to_bin v BIN_STEP = Inr (v div 4)"
    using assms by (simp add: velocity_to_bin_def BIN_STEP_value)
  have "0 \<le> v div 4" "v div 4 < 32" using assms by simp_all
  then have "''set_velocity_'' @ str (v div 4) \<in> set velocity_vocab"
    unfolding set_velocity_vocab by blast
  then show "''set_velocity_'' @ str (v div 4) \<in> set vocab"
    unfolding set_vocab by blast
qed

lemma set_instrument_token_in_vocab:
  assumes "0 \<le> p" "p \<le> 127"
  shows "''set_instrument_'' @ str p \<in> set vocab"
proof -
  have "''set_instrument_'' @ str p \<in> set instrument_vocab"
    unfolding set_instrument_vocab using assms by force
  then show ?thesis unfolding set_vocab by blast
qed

lemma emit_event_set_instrument:
  assumes "collected_event ev" "type ev = ''set_instrument''"
  shows "\<exists>s'. emit_event s ev = Inr s'"
proof -
  obtain t where "time ev = Some t" using assms(1) by (auto simp: collected_event_def)
  then obtain s1 where s1: "emit_time s ev = Inr s1" using emit_time_total by blast
  obtain p where p: "program ev = Some p" "0 \<le> p" "p \<le> 127"
    using assms by (auto simp: collected_event_def split: option.splits)
  obtain s' where "emit_token s1 (''set_instrument_'' @ str p) = Inr s'"
    using emit_token_hit [OF set_instrument_token_in_vocab [OF p(2,3)]] by blast
  then show ?thesis
    using s1 assms(2) p(1) by (simp add: emit_event_def fstr_def)
qed

lemma emit_event_note:
  assumes "collected_event ev" "type ev \<noteq> ''set_instrument''"
  shows "\<exists>s2. emit_event s ev
              = emit_token s2 (type ev @ ''_'' @ fstr (note ev) @ ''_'' @ fstr (instrument ev))"
proof -
  obtain t where "time ev = Some t" using assms(1) by (auto simp: collected_event_def)
  then obtain s1 where s1: "emit_time s ev = Inr s1" using emit_time_total by blast
  have ty: "type ev = ''note_on'' \<or> type ev = ''note_off''"
    using assms by (auto simp: collected_event_def)
  obtain v where v: "velocity ev = Some v" "0 \<le> v" "v \<le> 127"
    using assms by (auto simp: collected_event_def split: option.splits)
  obtain s2 where s2: "emit_velocity s1 ev = Inr s2"
  proof (cases "type ev = ''note_on''")
    case True
    obtain s2 where "emit_token s1 (''set_velocity_'' @ str (v div 4)) = Inr s2"
      using emit_token_hit [OF set_velocity_token_in_vocab(2) [OF v(2,3)]] by blast
    then have "emit_velocity s1 ev = Inr s2"
      using True v set_velocity_token_in_vocab(1) [OF v(2,3)] by (simp add: emit_velocity_def)
    then show ?thesis using that by blast
  next
    case False
    then have "emit_velocity s1 ev = Inr s1" by (simp add: emit_velocity_def)
    then show ?thesis using that by blast
  qed
  show ?thesis
    using s1 s2 ty assms(2) by (intro exI [of _ s2]) (simp add: emit_event_def)
qed

lemma emit_event_cases:
  assumes "collected_event ev"
  shows "(\<exists>s'. emit_event s ev = Inr s')
         \<or> (\<exists>tok. emit_event s ev = Inl (ValueError_not_in_list tok) \<and> tok \<notin> set vocab)"
proof (cases "type ev = ''set_instrument''")
  case True
  then show ?thesis using emit_event_set_instrument [OF assms] by blast
next
  case False
  then obtain s2 where "emit_event s ev
      = emit_token s2 (type ev @ ''_'' @ fstr (note ev) @ ''_'' @ fstr (instrument ev))"
    using emit_event_note [OF assms] by blast
  then show ?thesis
    using emit_token_cases [of s2 "type ev @ ''_'' @ fstr (note ev) @ ''_'' @ fstr (instrument ev)"]
    by auto
qed

lemma foldl_err_emit_cases:
  assumes "\<forall>ev\<in>set evs. collected_event ev"
  shows "(\<exists>s'. foldl_err emit_event s evs = Inr s')
         \<or> (\<exists>tok. foldl_err emit_event s evs = Inl (ValueError_not_in_list tok)
                  \<and> tok \<notin> set vocab)"
  using assms
proof (induction evs arbitrary: s)
  case Nil
  then show ?case by simp
next
  case (Cons ev evs)
  then have "collected_event ev" by simp
  from emit_event_cases [OF this, of s] show ?case
  proof
    assume "\<exists>s'. emit_event s ev = Inr s'"
    then obtain s1 where "emit_event s ev = Inr s1" by blast
    then show ?thesis using Cons.IH [of s1] Cons.prems by simp
  next
    assume "\<exists>tok. emit_event s ev = Inl (ValueError_not_in_list tok) \<and> tok \<notin> set vocab"
    then show ?thesis by auto
  qed
qed

lemma foldl_err_Inr_steps:
  assumes "foldl_err f s xs = Inr s'" "x \<in> set xs"
  shows "\<exists>a b. f a x = Inr b"
  using assms
proof (induction xs arbitrary: s)
  case Nil
  then show ?case by simp
next
  case (Cons y ys)
  then obtain s1 where s1: "f s y = Inr s1" "foldl_err f s1 ys = Inr s'"
    by (auto split: sum.splits)
  show ?case
  proof (cases "x = y")
    case True
    then show ?thesis using s1(1) by blast
  next
    case False
    then show ?thesis using Cons.IH [OF s1(2)] Cons.prems(2) by simp
  qed
qed

lemma encode_events_cases:
  assumes "\<forall>ev\<in>set evs. collected_event ev"
  shows "(\<exists>s'. encode_events evs = Inr s')
         \<or> (\<exists>tok. encode_events evs = Inl (ValueError_not_in_list tok) \<and> tok \<notin> set vocab)"
  using foldl_err_emit_cases [OF assms,
      of "\<lparr>event_list = [''<start>''], index_list = [4382], last_time = 0\<rparr>"]
  by (auto simp: encode_events_def start_token_value end_token_value)

lemma encode_events_unknown_note:
  assumes "\<forall>ev\<in>set evs. collected_event ev"
    and "ev \<in> set evs" "type ev \<noteq> ''set_instrument''"
    and "type ev @ ''_'' @ fstr (note ev) @ ''_'' @ fstr (instrument ev) \<notin> set vocab"
  shows "\<exists>tok. encode_events evs = Inl (ValueError_not_in_list tok) \<and> tok \<notin> set vocab"
proof -
  have "\<not> (\<exists>s'. encode_events evs = Inr s')"
  proof
    assume "\<exists>s'. encode_events evs = Inr s'"
    then obtain s1 where "foldl_err emit_event
        \<lparr>event_list = [''<start>''], index_list = [4382], last_time = 0\<rparr> evs = Inr s1"
      by (auto simp: encode_events_def start_token_value split: sum.splits)
    from foldl_err_Inr_steps [OF this assms(2)]
    obtain a b where ab: "emit_event a ev = Inr b" by auto
    have "collected_event ev" using assms(1,2) by simp
    then obtain s2 where "emit_event a ev
        = emit_token s2 (type ev @ ''_'' @ fstr (note ev) @ ''_'' @ fstr (instrument ev))"
      using emit_event_note assms(3) by blast
    then show False
      using ab emit_token_miss [OF assms(4), of s2] by simp
  qed
  then show ?thesis using encode_events_cases [OF assms(1)] by blast
qed

section \<open>Unknown symbols\<close>

lemma absolute_events_mono:
  "set (absolute_events s) \<subseteq> set (absolute_events (foldl collect_msg s ms))"
proof (induction ms arbitrary: s)
  case Nil
  then show ?case by simp
next
  case (Cons m ms)
  have "set (absolute_events s) \<subseteq> set (absolute_events (collect_msg s m))"
    by (cases m) (auto simp: collect_msg_def Let_def)
  then show ?case using Cons [of "collect_msg s m"] by auto
qed

lemma collect_note_event:
  assumes "m = Msg_note_on ch n v t \<or> m = Msg_note_off ch n v t"
    and "channel_programs s ch = Some p"
  shows "\<exists>ev\<in>set (absolute_events (collect_msg s m)).
           (type ev = ''note_on'' \<or> type ev = ''note_off'')
           \<and> note ev = Some n \<and> instrument ev = Some p"
  using assms by (auto simp: collect_msg_def note_event_def Let_def)

lemma first_pass_note_event:
  assumes "concat mid = pre @ m # post"
    and "m = Msg_note_on ch n v t \<or> m = Msg_note_off ch n v t"
    and "channel_programs (foldl collect_msg collect_init pre) ch = Some p"
  shows "\<exists>ev\<in>set (absolute_events (first_pass mid)).
           (type ev = ''note_on'' \<or> type ev = ''note_off'')
           \<and> note ev = Some n \<and> instrument ev = Some p"
proof -
  let ?s = "foldl collect_msg collect_init pre"
  obtain ev where ev: "ev \<in> set (absolute_events (collect_msg ?s m))"
    "type ev = ''note_on'' \<or> type ev = ''note_off''" "note ev = Some n" "instrument ev = Some p"
    using collect_note_event [OF assms(2,3)] by blast
  have "first_pass mid = foldl collect_msg (collect_msg ?s m) post"
    by (simp add: first_pass_concat assms(1))
  then have "ev \<in> set (absolute_events (first_pass mid))"
    using ev(1) absolute_events_mono [of "collect_msg ?s m" post] by auto
  then show ?thesis using ev by blast
qed

lemma note_token_program_16:
  assumes "type ev = ''note_on'' \<or> type ev = ''note_off''"
    and "note ev = Some n" "instrument ev = Some p" "16 \<le> p"
  shows "type ev @ ''_'' @ fstr (note ev) @ ''_'' @ fstr (instrument ev) \<notin> set vocab"
  using assms note_on_token_in_vocab [of n p] note_off_token_in_vocab [of n p]
  by (auto simp: fstr_def)

text \<open>
  C9.  On messages as the MIDI library delivers them, \<open>midi_parser\<close> can only fail
  with the \<open>ValueError\<close> of a vocabulary lookup miss, for a symbol that is not in the
  vocabulary; it does fail so whenever the symbol of a note event is outside the
  vocabulary, and in particular whenever a note event arrives on a channel whose
  current program is 16 or more.
\<close>

theorem midi_parser_unknown_symbol:
  assumes "\<forall>m\<in>set (concat mid). valid_msg m"
  shows "(\<forall>e. midi_parser mid = Inl e
            \<longrightarrow> (\<exists>tok. e = ValueError_not_in_list tok \<and> tok \<notin> set vocab))
       \<and> (\<forall>ev\<in>set (absolute_events (first_pass mid)).
            type ev \<noteq> ''set_instrument''
            \<and> type ev @ ''_'' @ fstr (note ev) @ ''_'' @ fstr (instrument ev) \<notin> set vocab
            \<longrightarrow> (\<exists>tok. midi_parser mid = Inl (ValueError_not_in_list tok) \<and> tok \<notin> set vocab))
       \<and> (\<forall>pre m post ch n v t p.
            concat mid = pre @ m # post
            \<and> (m = Msg_note_on ch n v t \<or> m = Msg_note_off ch n v t)
            \<and> channel_programs (foldl collect_msg collect_init pre) ch = Some p \<and> 16 \<le> p
            \<longrightarrow> (\<exists>tok. midi_parser mid = Inl (ValueError_not_in_list tok) \<and> tok \<notin> set vocab))"
proof -
  let ?evs = "sort_key time (absolute_events (first_pass mid))"
  have col: "\<forall>ev\<in>set ?evs. collected_event ev"
    using first_pass_collected [OF assms] by simp
  have mp: "midi_parser mid = Inl e" if "encode_events ?evs = Inl e" for e
    using that by (simp add: midi_parser_def)
  have c1: "\<exists>tok. e = ValueError_not_in_list tok \<and> tok \<notin> set vocab"
    if "midi_parser mid = Inl e" for e
    using that encode_events_cases [OF col]
    by (auto simp: midi_parser_def Let_def split: sum.splits)
  have c2: "\<exists>tok. midi_parser mid = Inl (ValueError_not_in_list tok) \<and> tok \<notin> set vocab"
    if a: "ev \<in> set (absolute_events (first_pass mid))"
      and b: "type ev \<noteq> ''set_instrument''"
      and c: "type ev @ ''_'' @ fstr (note ev) @ ''_'' @ fstr (instrument ev) \<notin> set vocab"
    for ev
  proof -
    have "ev \<in> set ?evs" using a by simp
    from encode_events_unknown_note [OF col this b c] show ?thesis
      using mp by blast
  qed
  have c3: "\<exists>tok. midi_parser mid = Inl (ValueError_not_in_list tok) \<and> tok \<notin> set vocab"
    if a: "concat mid = pre @ m # post"
      and b: "m = Msg_note_on ch n v t \<or> m = Msg_note_off ch n v t"
      and c: "channel_programs (foldl collect_msg collect_init pre) ch = Some p"
      and d: "16 \<le> p"
    for pre m post ch n v t p
  proof -
    obtain ev where ev: "ev \<in> set (absolute_events (first_pass mid))"
      "type ev = ''note_on'' \<or> type ev = ''note_off''" "note ev = Some n" "instrument ev = Some p"
      using first_pass_note_event [OF a b c] by blast
    have "type ev \<noteq> ''set_instrument''" using ev(2) by auto
    then show ?thesis
      using c2 [OF ev(1)] note_token_program_16 [OF ev(2,3,4) d] by blast
  qed
  show ?thesis
    using c1 c2 c3 by blast
qed

theorem midi_parser_unknown_symbol_witness:
  "valid_msg (Msg_program_change 0 16 0) \<and> valid_msg (Msg_note_on 0 60 100 0)
   \<and> channel_programs (foldl collect_msg collect_init [Msg_program_change 0 16 0]) 0 = Some 16
   \<and> (\<exists>tok. midi_parser [[Msg_program_change 0 16 0, Msg_note_on 0 60 100 0]]
               = Inl (ValueError_not_in_list tok) \<and> tok \<notin> set vocab)"
proof -
  have v: "\<forall>m\<in>set (concat [[Msg_program_change 0 16 0, Msg_note_on 0 60 100 0]]). valid_msg m"
    by simp
  have c: "channel_programs (foldl collect_msg collect_init [Msg_program_change 0 16 0]) 0
           = Some 16"
    by (simp add: collect_msg_def collect_init_def)
  have "concat [[Msg_program_change 0 16 0, Msg_note_on 0 60 100 0]]
        = [Msg_program_change 0 16 0] @ Msg_note_on 0 60 100 0 # []"
    by simp
  then have "\<exists>tok. midi_parser [[Msg_program_change 0 16 0, Msg_note_on 0 60 100 0]]
               = Inl (ValueError_not_in_list tok) \<and> tok \<notin> set vocab"
    using midi_parser_unknown_symbol [OF v] c by blast
  then show ?thesis
    using c by simp
qed

end
